(* ===== verification/Prelude.thy ===== *)
theory Prelude
  imports Main "HOL-Library.Sublist" "HOL-Library.List_Lexorder" "HOL-Library.Code_Target_Nat"
begin

text \<open>
  Shared vocabulary of the development: fallible computations as values of a sum type
  (\<open>Inl\<close> is the thrown error), their sequencing, the loops \<open>for (const x of xs)\<close> that
  may throw, the ECMAScript \<open>Map\<close> as an association list in insertion order, and the
  interfaces (locales) through which the components use them.
\<close>

section \<open>Collections of facts\<close>

named_theorems seqE \<open>inversion of sequenced fallible computations\<close>
named_theorems path_simps \<open>rewriting of path and segment operations\<close>
named_theorems fs_simps \<open>rewriting of file system operations\<close>
named_theorems doc_defs \<open>definitions of the documentation assembler to unfold\<close>

section \<open>Fallible computations\<close>

definition bindE :: "'e + 'a \<Rightarrow> ('a \<Rightarrow> 'e + 'b) \<Rightarrow> 'e + 'b" where
  "bindE m f = (case m of Inl e \<Rightarrow> Inl e | Inr x \<Rightarrow> f x)"

lemma bindE_simps [simp]: "bindE (Inl e) f = Inl e" "bindE (Inr x) f = f x"
  by (simp_all add: bindE_def)

lemma bindE_Inr [seqE]: "bindE m f = Inr y \<longleftrightarrow> (\<exists>x. m = Inr x \<and> f x = Inr y)"
  by (cases m) auto

lemma bindE_Inl [seqE]:
  "bindE m f = Inl e \<longleftrightarrow> m = Inl e \<or> (\<exists>x. m = Inr x \<and> f x = Inl e)"
  by (cases m) auto

lemma bindE_cong [fundef_cong]:
  "m = m' \<Longrightarrow> (\<And>x. m' = Inr x \<Longrightarrow> f x = g x) \<Longrightarrow> bindE m f = bindE m' g"
  by (cases m') auto

text \<open>A statement \<open>if (c) throw e;\<close>.\<close>

definition throw_if :: "bool \<Rightarrow> 'e \<Rightarrow> 'e + unit" where
  "throw_if c e = (if c then Inl e else Inr ())"

lemma throw_if_simps [simp]: "throw_if True e = Inl e" "throw_if False e = Inr ()"
  by (simp_all add: throw_if_def)

lemma throw_if_Inr [seqE]: "throw_if c e = Inr u \<longleftrightarrow> \<not> c"
  by (simp add: throw_if_def)

lemma throw_if_Inl [seqE]: "throw_if c e = Inl x \<longleftrightarrow> c \<and> x = e"
  by (auto simp: throw_if_def)

text \<open>A loop over a list whose body updates a state and may throw.\<close>

fun foldE :: "('s \<Rightarrow> 'a \<Rightarrow> 'e + 's) \<Rightarrow> 's \<Rightarrow> 'a list \<Rightarrow> 'e + 's" where
  "foldE f s [] = Inr s"
| "foldE f s (x # xs) = bindE (f s x) (\<lambda>s'. foldE f s' xs)"

text \<open>\<open>xs.map(f)\<close> for a callback that may throw.\<close>

fun mapE :: "('a \<Rightarrow> 'e + 'b) \<Rightarrow> 'a list \<Rightarrow> 'e + 'b list" where
  "mapE f [] = Inr []"
| "mapE f (x # xs) = bindE (f x) (\<lambda>y. bindE (mapE f xs) (\<lambda>ys. Inr (y # ys)))"

lemma foldE_append:
  "foldE f s (xs @ ys) = bindE (foldE f s xs) (\<lambda>s'. foldE f s' ys)"
  by (induction xs arbitrary: s) (auto simp: bindE_def split: sum.splits)

lemma foldE_cong [fundef_cong]:
  "xs = ys \<Longrightarrow> s = t \<Longrightarrow> (\<And>x u. x \<in> set ys \<Longrightarrow> f u x = g u x) \<Longrightarrow> foldE f s xs = foldE g t ys"
proof (induction ys arbitrary: xs s t)
  case (Cons y ys)
  have "foldE f u ys = foldE g u ys" for u by (rule Cons.IH) (use Cons.prems in auto)
  with Cons.prems show ?case by (auto intro!: bindE_cong)
qed simp

lemma foldE_throws:
  "foldE f s xs = Inl e \<Longrightarrow> \<exists>x\<in>set xs. \<exists>s'. f s' x = Inl e"
  by (induction xs arbitrary: s) (auto simp: seqE)

lemma mapE_cong [fundef_cong]:
  "xs = ys \<Longrightarrow> (\<And>x. x \<in> set ys \<Longrightarrow> f x = g x) \<Longrightarrow> mapE f xs = mapE g ys"
  by (induction ys arbitrary: xs) auto

lemma mapE_Inr:
  "mapE f xs = Inr ys \<Longrightarrow> list_all2 (\<lambda>x y. f x = Inr y) xs ys"
  by (induction xs arbitrary: ys) (auto simp: seqE)

lemma mapE_mem: "mapE f xs = Inr ys \<Longrightarrow> y \<in> set ys \<Longrightarrow> \<exists>x\<in>set xs. f x = Inr y"
  by (induction xs arbitrary: ys) (auto simp: seqE)

lemma mapE_Inr_map: "(\<And>x. x \<in> set xs \<Longrightarrow> f x = Inr (g x)) \<Longrightarrow> mapE f xs = Inr (map g xs)"
  by (induction xs) auto

lemma mapE_Inl: "mapE f xs = Inl e \<Longrightarrow> \<exists>x\<in>set xs. f x = Inl e"
  by (induction xs) (auto simp: seqE)

lemma mapE_length: "mapE f xs = Inr ys \<Longrightarrow> length ys = length xs"
  by (auto dest!: mapE_Inr list_all2_lengthD)

section \<open>Loops with an invariant\<close>

text \<open>
  The contract of a validating loop: the body keeps an invariant that relates the loop's
  state to the elements already consumed. A client gets the invariant for the whole list.
\<close>

locale validating_loop =
  fixes body :: "'s \<Rightarrow> 'a \<Rightarrow> 'e + 's"
    and inv :: "'a list \<Rightarrow> 's \<Rightarrow> bool"
  assumes body_inv: "inv past s \<Longrightarrow> body s x = Inr s' \<Longrightarrow> inv (past @ [x]) s'"
begin

lemma loop_inv_from:
  "inv past s \<Longrightarrow> foldE body s xs = Inr s' \<Longrightarrow> inv (past @ xs) s'"
proof (induction xs arbitrary: past s)
  case (Cons x xs)
  then obtain s1 where "body s x = Inr s1" and rest: "foldE body s1 xs = Inr s'"
    by (auto simp: seqE)
  with Cons.prems(1) have "inv (past @ [x]) s1" by (blast intro: body_inv)
  from Cons.IH [OF this rest] show ?case by simp
qed simp

lemma loop_inv: "inv [] s \<Longrightarrow> foldE body s xs = Inr s' \<Longrightarrow> inv xs s'"
  using loop_inv_from [of "[]"] by simp

end

section \<open>The ECMAScript Map\<close>

text \<open>
  A \<open>Map\<close> keeps its entries in insertion order; setting a present key replaces the value
  in place. It is an association list with one entry per key.
\<close>

type_synonym ('k, 'v) jsmap = "('k \<times> 'v) list"

definition map_get :: "('k, 'v) jsmap \<Rightarrow> 'k \<Rightarrow> 'v option" where
  "map_get m k = map_of m k"

definition map_has :: "('k, 'v) jsmap \<Rightarrow> 'k \<Rightarrow> bool" where
  "map_has m k = (map_get m k \<noteq> None)"

fun map_set :: "('k, 'v) jsmap \<Rightarrow> 'k \<Rightarrow> 'v \<Rightarrow> ('k, 'v) jsmap" where
  "map_set [] k v = [(k, v)]"
| "map_set ((k', v') # m) k v = (if k' = k then (k, v) # m else (k', v') # map_set m k v)"

definition map_keys :: "('k, 'v) jsmap \<Rightarrow> 'k list" where
  "map_keys m = map fst m"

text \<open>The contract of \<open>Map\<close> that the assembler relies on.\<close>

locale js_map =
  fixes get :: "'m \<Rightarrow> 'k \<Rightarrow> 'v option"
    and has :: "'m \<Rightarrow> 'k \<Rightarrow> bool"
    and put :: "'m \<Rightarrow> 'k \<Rightarrow> 'v \<Rightarrow> 'm"
    and keys :: "'m \<Rightarrow> 'k list"
  assumes get_put: "get (put m k v) = (get m)(k \<mapsto> v)"
    and has_get: "has m k \<longleftrightarrow> get m k \<noteq> None"
    and keys_get: "set (keys m) = {k. get m k \<noteq> None}"
    and keys_put: "keys (put m k v) = (if has m k then keys m else keys m @ [k])"
begin

lemma has_put: "has (put m k v) k' \<longleftrightarrow> k' = k \<or> has m k'"
  by (simp add: has_get get_put)

lemma put_fresh_get: "\<not> has m k \<Longrightarrow> get m k' = Some v' \<Longrightarrow> get (put m k v) k' = Some v'"
  by (auto simp: has_get get_put)

lemma distinct_keys_put: "distinct (keys m) \<Longrightarrow> distinct (keys (put m k v))"
  by (auto simp: keys_put has_get keys_get)

lemma finite_dom: "finite (dom (get m))"
proof -
  have "dom (get m) = set (keys m)" by (auto simp: keys_get)
  then show ?thesis by simp
qed

end

lemma map_get_set: "map_get (map_set m k v) = (map_get m)(k \<mapsto> v)"
  by (induction m k v rule: map_set.induct) (auto simp: map_get_def fun_eq_iff)

lemma map_keys_get: "set (map_keys m) = {k. map_get m k \<noteq> None}"
  by (auto simp: map_keys_def map_get_def map_of_eq_None_iff image_iff)

lemma map_keys_set:
  "map_keys (map_set m k v) = (if map_has m k then map_keys m else map_keys m @ [k])"
  by (induction m k v rule: map_set.induct) (auto simp: map_keys_def map_has_def map_get_def)

interpretation jm: js_map map_get map_has map_set map_keys
  by unfold_locales (simp_all add: map_get_set map_has_def map_keys_get map_keys_set)

lemma map_get_Nil [simp]: "map_get [] k = None"
  by (simp add: map_get_def)

lemma map_has_Nil [simp]: "\<not> map_has [] k"
  by (simp add: map_has_def)

lemma map_keys_Nil [simp]: "map_keys [] = []"
  by (simp add: map_keys_def)

section \<open>Lists\<close>

text \<open>\<open>xs.findIndex(p)\<close>, with \<open>None\<close> for \<open>-1\<close>.\<close>

fun find_index :: "('a \<Rightarrow> bool) \<Rightarrow> 'a list \<Rightarrow> nat option" where
  "find_index p [] = None"
| "find_index p (x # xs) = (if p x then Some 0 else map_option Suc (find_index p xs))"

lemma find_index_Some:
  "find_index p xs = Some i \<Longrightarrow> i < length xs \<and> p (xs ! i) \<and> (\<forall>j<i. \<not> p (xs ! j))"
  by (induction xs arbitrary: i) (auto split: if_splits simp: less_Suc_eq_0_disj)

lemma find_index_None: "find_index p xs = None \<longleftrightarrow> (\<forall>x\<in>set xs. \<not> p x)"
  by (induction xs) auto

text \<open>\<open>xs.join(sep)\<close> on strings.\<close>

fun join :: "'a list \<Rightarrow> 'a list list \<Rightarrow> 'a list" where
  "join sep [] = []"
| "join sep [x] = x"
| "join sep (x # y # xs) = x @ sep @ join sep (y # xs)"

lemma join_Cons: "join sep (x # xs) = (if xs = [] then x else x @ sep @ join sep xs)"
  by (cases xs) auto

text \<open>A strictly ascending list, given by comparing neighbours only.\<close>

lemma sorted_wrt_less_keyI:
  fixes f :: "'a \<Rightarrow> 'b :: linorder"
  assumes "\<And>i. Suc i < length xs \<Longrightarrow> f (xs ! i) < f (xs ! Suc i)"
  shows "sorted_wrt (<) (map f xs)"
  using assms by (subst sorted_wrt_iff_nth_Suc_transp) auto

end
