(* ===== verification/JsValue.thy ===== *)
theory JsValue
  imports JsString
begin

text \<open>
  ECMAScript values as \<open>js-yaml\<close> produces them under its JSON schema (front matter) and as
  \<open>JSON.stringify\<close> consumes them, truthiness, property access, conversion to a string and
  \<open>JSON.stringify(v, null, 2)\<close>; and the errors the assembler throws, each with the message of
  the source.
\<close>

section \<open>Values\<close>

text \<open>
  A number is a double: an integral value, negative zero, a fraction \<open>m / 2\<^sup>k\<close> that is no
  integer, an infinity or NaN.
\<close>

datatype jsnum = NumInt int | NumNegZero | NumFrac int nat | NumInf bool | NumNaN

datatype jsval =
    JUndef
  | JNull
  | JBool bool
  | JNum jsnum
  | JStr string
  | JArr "jsval list"
  | JObj "(string \<times> jsval) list"

definition prop_of :: "jsval \<Rightarrow> string \<Rightarrow> jsval" where
  "prop_of v k =
     (case v of
        JObj kvs \<Rightarrow> (case map_of kvs k of None \<Rightarrow> JUndef | Some x \<Rightarrow> x)
      | _ \<Rightarrow> JUndef)"

fun truthy :: "jsval \<Rightarrow> bool" where
  "truthy JUndef = False"
| "truthy JNull = False"
| "truthy (JBool b) = b"
| "truthy (JNum n) = (n \<noteq> NumInt 0 \<and> n \<noteq> NumNegZero \<and> n \<noteq> NumNaN)"
| "truthy (JStr s) = (s \<noteq> [])"
| "truthy (JArr xs) = True"
| "truthy (JObj kvs) = True"

definition as_string :: "jsval \<Rightarrow> string option" where
  "as_string v = (case v of JStr s \<Rightarrow> Some s | _ \<Rightarrow> None)"

lemma as_string_Some [simp]: "as_string v = Some s \<longleftrightarrow> v = JStr s"
  by (cases v) (auto simp: as_string_def)

lemma as_string_JStr [simp]: "as_string (JStr s) = Some s"
  by simp

definition is_array :: "jsval \<Rightarrow> bool" where
  "is_array v = (case v of JArr xs \<Rightarrow> True | _ \<Rightarrow> False)"

text \<open>\<open>!v || typeof v !== 'object' || Array.isArray(v)\<close> is false exactly for an object.\<close>

definition is_mapping :: "jsval \<Rightarrow> bool" where
  "is_mapping v = (case v of JObj kvs \<Rightarrow> True | _ \<Rightarrow> False)"

text \<open>\<open>Number.isSafeInteger\<close>\<close>

definition max_safe_integer :: int where
  "max_safe_integer = 9007199254740991"

definition is_safe_integer :: "jsval \<Rightarrow> bool" where
  "is_safe_integer v =
     (case v of
        JNum (NumInt i) \<Rightarrow> \<bar>i\<bar> \<le> max_safe_integer
      | JNum NumNegZero \<Rightarrow> True
      | _ \<Rightarrow> False)"

section \<open>Errors\<close>

datatype doc_error =
    FrontMatterNotMapping string
  | YamlError string
  | BadId string
  | TitleRequired string
  | WrongCollection string string
  | BadSidebarPosition string
  | DuplicateId string string string
  | BadRelated string
  | BadRecordId string string string
  | BadStatus string "string list"
  | BadDate string
  | BadSupersededBy string
  | UnknownRelated string string
  | BadReplacement string string
  | ReplacementCycle string string
  | LinkLeaves string string
  | MissingTarget string string
  | IndexRowShape string string
  | IndexRowLink string string
  | WrongIndex string string string
  | DuplicateEntry string string
  | DuplicatePosition string string string
  | MissingEntries string string "string list"
  | IndexOrder string string string
  | CredentialedRepository
  | NoRepository
  | ImageDirectory string string
  | URIError
  | TypeError string
  | FsError string string

primrec error_message :: "doc_error \<Rightarrow> string" where
  "error_message (FrontMatterNotMapping s) = s @ '': front matter must be a YAML mapping''"
| "error_message (YamlError m) = m"
| "error_message (BadId s) =
     s @ '': id must contain letters, digits, and hyphens and start with a letter''"
| "error_message (TitleRequired s) = s @ '': title is required''"
| "error_message (WrongCollection s c) = s @ '': collection must be '' @ c"
| "error_message (BadSidebarPosition s) =
     s @ '': handbook sidebar_position must be a positive integer''"
| "error_message (DuplicateId s i o') = s @ '': duplicate id '' @ i @ '' (also in '' @ o' @ '')''"
| "error_message (BadRelated s) = s @ '': related must be a list of document IDs''"
| "error_message (BadRecordId s c p) = s @ '': '' @ c @ '' must use '' @ p @ ''-NNN IDs''"
| "error_message (BadStatus s xs) = s @ '': status must be one of '' @ join '', '' xs"
| "error_message (BadDate s) = s @ '': date must be a real date in YYYY-MM-DD form''"
| "error_message (BadSupersededBy s) =
     s @ '': only a superseded decision must set superseded_by to a replacement ID''"
| "error_message (UnknownRelated s i) = s @ '': unknown related document '' @ i"
| "error_message (BadReplacement s i) =
     s @ '': replacement '' @ i @ '' must be an accepted or superseded decision''"
| "error_message (ReplacementCycle s i) = s @ '': decision replacement cycle through '' @ i"
| "error_message (LinkLeaves s u) = s @ '': link leaves the repository: '' @ u"
| "error_message (MissingTarget s u) = s @ '': missing link target '' @ u"
| "error_message (IndexRowShape s n) =
     s @ '': '' @ n @ '' index rows need a document and a nonempty purpose''"
| "error_message (IndexRowLink s n) =
     s @ '': each '' @ n @ '' index row must link to one documentation source''"
| "error_message (WrongIndex s p c) = s @ '': '' @ p @ '' belongs in the '' @ c @ '' index''"
| "error_message (DuplicateEntry s p) = s @ '': duplicate index entry for '' @ p"
| "error_message (DuplicatePosition s p o') =
     s @ '': duplicate handbook sidebar_position '' @ p @ '' (also in '' @ o' @ '')''"
| "error_message (MissingEntries s n ps) =
     s @ '': missing '' @ n @ '' index entries: '' @ join '', '' ps"
| "error_message (IndexOrder s n f) = s @ '': '' @ n @ '' index must follow ascending '' @ f @ '' order''"
| "error_message CredentialedRepository =
     ''DOCS_REPOSITORY_URL must be an HTTP(S) repository URL without credentials''"
| "error_message NoRepository =
     ''Set DOCS_REPOSITORY_URL to the repository web URL when no GitHub origin can be detected''"
| "error_message (ImageDirectory s u) = s @ '': image must reference a file: '' @ u"
| "error_message URIError = ''URI malformed''"
| "error_message (TypeError m) = m"
| "error_message (FsError c p) = c @ '': '' @ p"

section \<open>Conversion to a string\<close>

text \<open>
  \<open>`${v}`\<close>. The digits of a number that is no safe integer are left to the argument \<open>fmt\<close> (beyond
  \<open>2\<^sup>5\<^sup>3\<close> the engine prints the shortest digits that round back, not all of them). An object converts to \<open>[object Object]\<close> unless it has an own \<open>toString\<close>, which is
  then not callable: the engine throws.
\<close>

definition num_string :: "(jsnum \<Rightarrow> string) \<Rightarrow> jsnum \<Rightarrow> string" where
  "num_string fmt n =
     (case n of
        NumInt i \<Rightarrow> if \<bar>i\<bar> \<le> max_safe_integer then show_int i else fmt n
      | NumNegZero \<Rightarrow> ''0''
      | NumFrac m k \<Rightarrow> fmt n
      | NumInf neg \<Rightarrow> if neg then ''-Infinity'' else ''Infinity''
      | NumNaN \<Rightarrow> ''NaN'')"

fun to_string :: "(jsnum \<Rightarrow> string) \<Rightarrow> jsval \<Rightarrow> doc_error + string" where
  "to_string fmt JUndef = Inr ''undefined''"
| "to_string fmt JNull = Inr ''null''"
| "to_string fmt (JBool b) = Inr (if b then ''true'' else ''false'')"
| "to_string fmt (JNum n) = Inr (num_string fmt n)"
| "to_string fmt (JStr s) = Inr s"
| "to_string fmt (JArr xs) =
     bindE (mapE (\<lambda>x. if x = JUndef \<or> x = JNull then Inr '''' else to_string fmt x) xs)
       (\<lambda>ss. Inr (join '','' ss))"
| "to_string fmt (JObj kvs) =
     (if map_of kvs ''toString'' = None then Inr ''[object Object]''
      else Inl (TypeError ''Cannot convert object to primitive value''))"

section \<open>JSON.stringify with an indentation of two\<close>

abbreviation newline :: char where "newline \<equiv> CHR 0x0A"

definition hex4 :: "nat \<Rightarrow> string" where
  "hex4 n = map (\<lambda>d. if d < 10 then of_code (48 + d) else of_code (87 + d))
     [n div 4096 mod 16, n div 256 mod 16, n div 16 mod 16, n mod 16]"

definition json_char :: "char \<Rightarrow> string" where
  "json_char c =
     (if c = CHR 0x22 \<or> c = CHR 0x5C then [CHR 0x5C, c]
      else if code c = 8 then [CHR 0x5C, CHR ''b'']
      else if code c = 12 then [CHR 0x5C, CHR ''f'']
      else if code c = 10 then [CHR 0x5C, CHR ''n'']
      else if code c = 13 then [CHR 0x5C, CHR ''r'']
      else if code c = 9 then [CHR 0x5C, CHR ''t'']
      else if code c < 32 then [CHR 0x5C, CHR ''u''] @ hex4 (code c)
      else [c])"

definition json_quote :: "string \<Rightarrow> string" where
  "json_quote s = [CHR 0x22] @ concat (map json_char s) @ [CHR 0x22]"

definition indent :: "nat \<Rightarrow> string" where
  "indent n = newline # replicate (2 * n) CHR '' ''"

definition json_block :: "nat \<Rightarrow> char \<Rightarrow> char \<Rightarrow> string list \<Rightarrow> string" where
  "json_block n l r items =
     (if items = [] then [l, r]
      else [l] @ indent (Suc n) @ join ('','' @ indent (Suc n)) items @ indent n @ [r])"

fun json_stringify :: "(jsnum \<Rightarrow> string) \<Rightarrow> nat \<Rightarrow> jsval \<Rightarrow> string"
  and json_member :: "(jsnum \<Rightarrow> string) \<Rightarrow> nat \<Rightarrow> string \<times> jsval \<Rightarrow> string list" where
  "json_stringify fmt n JUndef = ''null''"
| "json_stringify fmt n JNull = ''null''"
| "json_stringify fmt n (JBool b) = (if b then ''true'' else ''false'')"
| "json_stringify fmt n (JNum x) =
     (case x of NumInf neg \<Rightarrow> ''null'' | NumNaN \<Rightarrow> ''null'' | _ \<Rightarrow> num_string fmt x)"
| "json_stringify fmt n (JStr s) = json_quote s"
| "json_stringify fmt n (JArr xs) =
     json_block n CHR ''['' CHR '']'' (map (json_stringify fmt (Suc n)) xs)"
| "json_stringify fmt n (JObj kvs) =
     json_block n CHR ''{'' CHR ''}'' (concat (map (json_member fmt (Suc n)) kvs))"
| "json_member fmt n (k, v) =
     (if v = JUndef then [] else [json_quote k @ '': '' @ json_stringify fmt n v])"

end
