(* ===== verification/Markdown.thy ===== *)
theory Markdown
  imports JsValue
begin

text \<open>
  The Markdown syntax tree (mdast) as the assembler sees it, \<open>nodeText\<close>, and tree traversal.
  \<open>unist-util-visit\<close> is a package: its visiting order is an argument (a function from a tree
  to the positions it visits), and its documented preorder is \<open>preorder\<close>. The visitor of
  \<open>renderPage\<close> overwrites the \<open>url\<close> of nodes in place; the interface \<open>url_tree\<close> states what such
  a pass does to a tree, and the tree operations below implement it.
\<close>

section \<open>Nodes\<close>

text \<open>
  \<open>md_text\<close> is the property \<open>value\<close>; \<open>md_other\<close> holds the properties the assembler never
  reads (titles, alternative texts, alignments). A leaf has no children.
\<close>

datatype mdnode = MdNode
  (md_type: string) (md_text: "string option") (md_depth: nat) (md_url: "string option")
  (md_identifier: "string option") (md_other: "(string \<times> jsval) list") (md_children: "mdnode list")

type_synonym mdpos = "nat list"

fun nodeText :: "mdnode \<Rightarrow> string" where
  "nodeText (MdNode t v d u i other cs) =
     (case v of Some s \<Rightarrow> s | None \<Rightarrow> concat (map nodeText cs))"

section \<open>Positions\<close>

fun node_at :: "mdnode \<Rightarrow> mdpos \<Rightarrow> mdnode option" where
  "node_at n [] = Some n"
| "node_at n (i # p) =
     (if i < length (md_children n) then node_at (md_children n ! i) p else None)"

fun put_url :: "mdpos \<Rightarrow> string \<Rightarrow> mdnode \<Rightarrow> mdnode" where
  "put_url [] u (MdNode t v d u' i other cs) = MdNode t v d (Some u) i other cs"
| "put_url (k # p) u (MdNode t v d u' i other cs) =
     MdNode t v d u' i other (if k < length cs then cs[k := put_url p u (cs ! k)] else cs)"

definition url_at :: "mdnode \<Rightarrow> mdpos \<Rightarrow> string option" where
  "url_at t p = (case node_at t p of None \<Rightarrow> None | Some n \<Rightarrow> md_url n)"

text \<open>Everything a node says apart from its \<open>url\<close>.\<close>

definition info_at :: "mdnode \<Rightarrow> mdpos \<Rightarrow>
    (string \<times> string option \<times> nat \<times> string option \<times> (string \<times> jsval) list \<times> nat) option" where
  "info_at t p = map_option
     (\<lambda>n. (md_type n, md_text n, md_depth n, md_identifier n, md_other n, length (md_children n)))
     (node_at t p)"

fun preorder :: "mdnode \<Rightarrow> mdpos list"
  and preorder_from :: "nat \<Rightarrow> mdnode list \<Rightarrow> mdpos list" where
  "preorder (MdNode t v d u i other cs) = [] # preorder_from 0 cs"
| "preorder_from k [] = []"
| "preorder_from k (c # cs) = map ((#) k) (preorder c) @ preorder_from (Suc k) cs"

lemma preorder_iff: "p \<in> set (preorder t) \<longleftrightarrow> node_at t p \<noteq> None"
  and preorder_from_iff:
    "p \<in> set (preorder_from k cs) \<longleftrightarrow>
     (\<exists>i q. p = (k + i) # q \<and> i < length cs \<and> node_at (cs ! i) q \<noteq> None)"
proof (induction t and k cs arbitrary: p and p rule: preorder_preorder_from.induct)
  case (1 t v d u i other cs)
  then show ?case by (cases p) auto
next
  case (3 k c cs)
  show ?case
  proof
    assume "p \<in> set (preorder_from k (c # cs))"
    then consider q where "p = k # q" "node_at c q \<noteq> None" | "p \<in> set (preorder_from (Suc k) cs)"
      using 3 by auto
    then show "\<exists>i q. p = (k + i) # q \<and> i < length (c # cs) \<and> node_at ((c # cs) ! i) q \<noteq> None"
    proof cases
      case 1
      then show ?thesis by (intro exI [of _ 0]) auto
    next
      case 2
      then obtain i q where "p = (Suc k + i) # q" "i < length cs" "node_at (cs ! i) q \<noteq> None"
        using 3 by blast
      then show ?thesis by (intro exI [of _ "Suc i"]) auto
    qed
  next
    assume "\<exists>i q. p = (k + i) # q \<and> i < length (c # cs) \<and> node_at ((c # cs) ! i) q \<noteq> None"
    then obtain i q where i: "p = (k + i) # q" "i < length (c # cs)" "node_at ((c # cs) ! i) q \<noteq> None"
      by blast
    then show "p \<in> set (preorder_from k (c # cs))"
    proof (cases i)
      case 0
      with i 3 show ?thesis by auto
    next
      case (Suc j)
      with i have "p \<in> set (preorder_from (Suc k) cs)" using 3 by auto
      then show ?thesis by simp
    qed
  qed
qed simp

lemma distinct_preorder: "distinct (preorder t)"
  and distinct_preorder_from: "distinct (preorder_from k cs)"
proof (induction t and k cs rule: preorder_preorder_from.induct)
  case (1 t v d u i other cs)
  then show ?case by (auto simp: preorder_from_iff)
next
  case (3 k c cs)
  then show ?case by (auto simp: distinct_map inj_on_def preorder_from_iff)
qed simp

text \<open>Overwriting a \<open>url\<close> changes that \<open>url\<close> and nothing else.\<close>

lemma info_put_url: "info_at (put_url p u t) q = info_at t q"
proof (induction p u t arbitrary: q rule: put_url.induct)
  case (1 u t v d u' i other cs)
  then show ?case by (cases q) (auto simp: info_at_def)
next
  case (2 k p u t v d u' i other cs)
  show ?case
  proof (cases q)
    case (Cons j r)
    with 2 [of r] show ?thesis by (cases "j = k") (auto simp: info_at_def)
  qed (auto simp: info_at_def)
qed

lemma url_put_url:
  "info_at t p \<noteq> None \<Longrightarrow> url_at (put_url p u t) q = (if q = p then Some u else url_at t q)"
proof (induction p u t arbitrary: q rule: put_url.induct)
  case (1 u t v d u' i other cs)
  then show ?case by (cases q) (auto simp: url_at_def)
next
  case (2 k p u t v d u' i other cs)
  show ?case
  proof (cases q)
    case (Cons j r)
    with 2 show ?thesis by (cases "j = k") (auto simp: info_at_def url_at_def split: if_splits)
  qed (auto simp: url_at_def)
qed

section \<open>Rewriting passes\<close>

text \<open>
  The interface of a tree whose nodes carry a rewritable \<open>url\<close>: a visitor that may throw,
  may leave a node alone or may give it a new \<open>url\<close>, run over a list of positions.
\<close>

locale url_tree =
  fixes url_of :: "'t \<Rightarrow> 'p \<Rightarrow> string option"
    and info_of :: "'t \<Rightarrow> 'p \<Rightarrow> 'i option"
    and put :: "'p \<Rightarrow> string \<Rightarrow> 't \<Rightarrow> 't"
  assumes url_put: "info_of t p \<noteq> None \<Longrightarrow> url_of (put p u t) q = (if q = p then Some u else url_of t q)"
    and info_put: "info_of (put p u t) q = info_of t q"
begin

definition visit_one ::
    "('i \<Rightarrow> string option \<Rightarrow> 'e + string option) \<Rightarrow> 't \<Rightarrow> 'p \<Rightarrow> 'e + 't" where
  "visit_one f t p =
     (case info_of t p of
        None \<Rightarrow> Inr t
      | Some i \<Rightarrow>
          bindE (f i (url_of t p))
            (\<lambda>r. Inr (case r of None \<Rightarrow> t | Some u \<Rightarrow> put p u t)))"

lemma visit_one_frame:
  assumes "visit_one f t p = Inr t'"
  shows "info_of t' q = info_of t q" and "q \<noteq> p \<Longrightarrow> url_of t' q = url_of t q"
  using assms by (auto simp: visit_one_def seqE url_put info_put split: option.splits)

lemma pass_info: "foldE (visit_one f) t ps = Inr t' \<Longrightarrow> info_of t' q = info_of t q"
  by (induction ps arbitrary: t) (auto simp: seqE visit_one_frame)

lemma pass_url_other:
  "foldE (visit_one f) t ps = Inr t' \<Longrightarrow> q \<notin> set ps \<Longrightarrow> url_of t' q = url_of t q"
  by (induction ps arbitrary: t) (auto simp: seqE visit_one_frame)

lemma pass_url:
  assumes "foldE (visit_one f) t ps = Inr t'" "distinct ps" "q \<in> set ps" "info_of t q = Some i"
  shows "\<exists>r. f i (url_of t q) = Inr r \<and> url_of t' q = (case r of None \<Rightarrow> url_of t q | Some u \<Rightarrow> Some u)"
  using assms
proof (induction ps arbitrary: t)
  case (Cons p ps)
  then obtain t1 where t1: "visit_one f t p = Inr t1" "foldE (visit_one f) t1 ps = Inr t'"
    by (auto simp: seqE)
  show ?case
  proof (cases "q = p")
    case True
    with Cons.prems t1 have "url_of t' q = url_of t1 q" by (auto intro: pass_url_other)
    moreover obtain r where "f i (url_of t p) = Inr r" "t1 = (case r of None \<Rightarrow> t | Some u \<Rightarrow> put p u t)"
      using True t1(1) Cons.prems(4) by (auto simp: visit_one_def seqE)
    ultimately show ?thesis using True Cons.prems(4) by (cases r) (simp_all add: url_put)
  next
    case False
    then have same: "url_of t1 q = url_of t q" "info_of t1 q = info_of t q"
      using visit_one_frame [OF t1(1)] by simp_all
    have "\<exists>r. f i (url_of t1 q) = Inr r \<and>
        url_of t' q = (case r of None \<Rightarrow> url_of t1 q | Some u \<Rightarrow> Some u)"
      using Cons.prems False by (intro Cons.IH [OF t1(2)]) (simp_all add: same)
    then show ?thesis unfolding same .
  qed
qed simp

text \<open>A pass that throws, throws what the visitor throws at a node with its original \<open>url\<close>.\<close>

lemma pass_throws:
  assumes "foldE (visit_one f) t ps = Inl e" "distinct ps"
  shows "\<exists>p\<in>set ps. \<exists>i. info_of t p = Some i \<and> f i (url_of t p) = Inl e"
  using assms
proof (induction ps arbitrary: t)
  case (Cons p ps)
  show ?case
  proof (cases "visit_one f t p")
    case (Inl e')
    with Cons.prems have "e' = e" by simp
    with Inl show ?thesis by (auto simp: visit_one_def seqE split: option.splits)
  next
    case (Inr t1)
    with Cons.prems have "foldE (visit_one f) t1 ps = Inl e" by simp
    from Cons.IH [OF this] Cons.prems(2) obtain q i where
      "q \<in> set ps" "q \<noteq> p" "info_of t1 q = Some i" "f i (url_of t1 q) = Inl e" by auto
    with visit_one_frame [OF Inr, of q] show ?thesis by auto
  qed
qed simp

end

interpretation mdtree: url_tree url_at info_at put_url
  by unfold_locales (simp_all add: url_put_url info_put_url)

end
