(* ===== verification/PosixPath.thy ===== *)
theory PosixPath
  imports JsString
begin

text \<open>
  Node's \<open>path.posix\<close> operations used by \<open>pages/assemble.mjs\<close> (\<open>normalize\<close>, \<open>join\<close>,
  \<open>resolve\<close>, \<open>relative\<close>, \<open>dirname\<close>, \<open>isAbsolute\<close>) on strings, computed on slash-separated
  segments, and the two helpers of the assembler itself, \<open>relative\<close> and \<open>repositoryPath\<close>.
  The current working directory, which \<open>resolve\<close> falls back to, is an argument. The main
  facts: \<open>resolve\<close> yields segments without \<open>.\<close>, \<open>..\<close> and empty names; following a relative
  path leads to its target; a relative path stays below its start exactly if the target
  does.
\<close>

type_synonym segs = "string list"

section \<open>Segments\<close>

definition segments :: "string \<Rightarrow> segs" where
  "segments p = split_on CHR ''/'' p"

definition of_segs :: "segs \<Rightarrow> string" where
  "of_segs ss = join ''/'' ss"

definition isAbsolute :: "string \<Rightarrow> bool" where
  "isAbsolute p = starts_with p ''/''"

text \<open>
  \<open>normalizeString\<close>: the accumulator holds the kept segments, last first; \<open>up\<close> is its
  \<open>allowAboveRoot\<close>.
\<close>

fun norm_segs :: "bool \<Rightarrow> segs \<Rightarrow> segs \<Rightarrow> segs" where
  "norm_segs up acc [] = rev acc"
| "norm_segs up acc (s # ss) =
     (if s = '''' \<or> s = ''.'' then norm_segs up acc ss
      else if s = ''..'' then
        (if acc \<noteq> [] \<and> hd acc \<noteq> ''..'' then norm_segs up (tl acc) ss
         else norm_segs up (if up then ''..'' # acc else acc) ss)
      else norm_segs up (s # acc) ss)"

text \<open>A name that \<open>normalize\<close> keeps: not empty, not \<open>.\<close>, not \<open>..\<close>, without a slash.\<close>

definition plain :: "string \<Rightarrow> bool" where
  "plain s = (s \<noteq> '''' \<and> s \<noteq> ''.'' \<and> s \<noteq> ''..'' \<and> CHR ''/'' \<notin> set s)"

section \<open>Operations of path.posix\<close>

definition path_normalize :: "string \<Rightarrow> string" where
  "path_normalize p =
     (if p = '''' then ''.''
      else let absolute = isAbsolute p; trailing = (last p = CHR ''/'');
               q = of_segs (norm_segs (\<not> absolute) [] (segments p))
           in if q = '''' then (if absolute then ''/'' else if trailing then ''./'' else ''.'')
              else (if absolute then ''/'' else '''') @ q @ (if trailing then ''/'' else ''''))"

definition path_join :: "string list \<Rightarrow> string" where
  "path_join ps =
     (let qs = filter (\<lambda>p. p \<noteq> '''') ps
      in if qs = [] then ''.'' else path_normalize (join ''/'' qs))"

fun from_last_absolute :: "string list \<Rightarrow> string list" where
  "from_last_absolute [] = []"
| "from_last_absolute (p # ps) = (if list_ex isAbsolute ps then from_last_absolute ps else p # ps)"

definition resolve_segs :: "string \<Rightarrow> string list \<Rightarrow> segs" where
  "resolve_segs cwd ps = norm_segs False [] (concat (map segments (from_last_absolute (cwd # ps))))"

definition path_resolve :: "string \<Rightarrow> string list \<Rightarrow> string" where
  "path_resolve cwd ps = ''/'' @ of_segs (resolve_segs cwd ps)"

fun strip_common :: "segs \<Rightarrow> segs \<Rightarrow> segs \<times> segs" where
  "strip_common (x # xs) (y # ys) = (if x = y then strip_common xs ys else (x # xs, y # ys))"
| "strip_common xs ys = (xs, ys)"

definition relative_segs :: "segs \<Rightarrow> segs \<Rightarrow> segs" where
  "relative_segs xs ys =
     (let (up, down) = strip_common xs ys in replicate (length up) ''..'' @ down)"

definition path_relative :: "string \<Rightarrow> string \<Rightarrow> string \<Rightarrow> string" where
  "path_relative cwd src dst =
     (if src = dst then ''''
      else of_segs (relative_segs (resolve_segs cwd [src]) (resolve_segs cwd [dst])))"

text \<open>
  \<open>dirname\<close> looks for the last slash that is neither trailing nor at index 0; \<open>before\<close> is the
  reversed text of index 1 up to and including that slash.
\<close>

definition path_dirname :: "string \<Rightarrow> string" where
  "path_dirname p =
     (case p of
        [] \<Rightarrow> ''.''
      | c # q \<Rightarrow>
          let before = dropWhile (\<lambda>x. x \<noteq> CHR ''/'') (dropWhile (\<lambda>x. x = CHR ''/'') (rev q))
          in if before = [] then (if c = CHR ''/'' then ''/'' else ''.'')
             else if c = CHR ''/'' \<and> length before = 1 then ''//''
             else c # rev (tl before))"

section \<open>Helpers of the assembler\<close>

definition relative :: "string \<Rightarrow> string \<Rightarrow> string \<Rightarrow> string" where
  "relative cwd src dst =
     (let result = path_relative cwd (path_dirname src) dst
      in if starts_with result ''.'' then result else ''./'' @ result)"

definition repositoryPath :: "string \<Rightarrow> string \<Rightarrow> string \<Rightarrow> string" where
  "repositoryPath cwd root filename =
     join ''/'' (split_on CHR ''/'' (path_relative cwd root filename))"

section \<open>Segment lemmas\<close>

lemma segments_no_slash: "s \<in> set (segments p) \<Longrightarrow> CHR ''/'' \<notin> set s"
  by (simp add: segments_def split_on_no_sep)

lemma of_segs_segments [simp]: "of_segs (segments p) = p"
  by (simp add: of_segs_def segments_def)

lemma segments_of_segs:
  "ss \<noteq> [] \<Longrightarrow> \<forall>s\<in>set ss. CHR ''/'' \<notin> set s \<Longrightarrow> segments (of_segs ss) = ss"
  by (simp add: segments_def of_segs_def split_on_join)

lemma segments_Nil [simp]: "segments [] = [[]]"
  by (simp add: segments_def)

lemma of_segs_Nil [simp]: "of_segs [] = []"
  by (simp add: of_segs_def)

lemma norm_segs_mem:
  "s \<in> set (norm_segs up acc ss) \<Longrightarrow>
   s \<in> set acc \<or> s \<in> set ss \<and> s \<noteq> '''' \<and> s \<noteq> ''.'' \<and> (s = ''..'' \<longrightarrow> up)"
proof (induction ss arbitrary: acc)
  case (Cons x ss)
  have tl: "s \<in> set (tl acc) \<Longrightarrow> s \<in> set acc" by (cases acc) auto
  consider "x = '''' \<or> x = ''.''" | "x = ''..''" | "x \<noteq> ''''" "x \<noteq> ''.''" "x \<noteq> ''..''" by blast
  then show ?case
  proof cases
    case 1
    then show ?thesis using Cons.IH [of acc] Cons.prems by auto
  next
    case 2
    then show ?thesis
      using Cons.IH [of "tl acc"] Cons.IH [of "''..'' # acc"] Cons.IH [of acc] Cons.prems tl
      by (simp split: if_splits) blast+
  next
    case 3
    then show ?thesis using Cons.IH [of "x # acc"] Cons.prems by auto
  qed
qed simp

lemma norm_segs_plain_only:
  assumes "\<forall>s\<in>set ss. CHR ''/'' \<notin> set s"
  shows "\<forall>s\<in>set (norm_segs False [] ss). plain s"
  using assms norm_segs_mem [of _ False "[]" ss] unfolding plain_def by fastforce

lemma norm_segs_plain: "\<forall>s\<in>set ss. plain s \<Longrightarrow> norm_segs up acc ss = rev acc @ ss"
  by (induction ss arbitrary: acc) (auto simp: plain_def)

lemma norm_segs_append:
  "norm_segs up acc (ss @ ts) = norm_segs up (rev (norm_segs up acc ss)) ts"
  by (induction ss arbitrary: acc) auto

lemma norm_segs_pop:
  "n \<le> length acc \<Longrightarrow> \<forall>s\<in>set acc. plain s \<Longrightarrow>
   norm_segs False acc (replicate n ''..'' @ ts) = norm_segs False (drop n acc) ts"
proof (induction n arbitrary: acc)
  case (Suc n)
  then obtain a as where "acc = a # as" by (cases acc) auto
  with Suc show ?case by (auto simp: plain_def)
qed simp

lemma resolve_segs_plain: "s \<in> set (resolve_segs cwd ps) \<Longrightarrow> plain s"
proof -
  have "\<forall>s\<in>set (resolve_segs cwd ps). plain s"
    unfolding resolve_segs_def
    by (rule norm_segs_plain_only) (auto dest: segments_no_slash)
  then show "s \<in> set (resolve_segs cwd ps) \<Longrightarrow> plain s" by blast
qed

lemma resolve_segs_all_plain [simp]: "\<forall>s\<in>set (resolve_segs cwd ps). plain s"
  using resolve_segs_plain by blast

lemma plain_no_slash: "plain s \<Longrightarrow> CHR ''/'' \<notin> set s"
  by (simp add: plain_def)

lemma strip_common_split:
  "strip_common xs ys = (us, ds) \<Longrightarrow> \<exists>cs. xs = cs @ us \<and> ys = cs @ ds"
proof (induction xs ys rule: strip_common.induct)
  case (1 x xs y ys)
  then show ?case by (cases "x = y") (auto intro: exI [of _ "[]"] simp: append_eq_Cons_conv)
qed auto

lemma strip_common_same [simp]: "strip_common xs xs = ([], [])"
  by (induction xs) auto

lemma strip_common_prefix [simp]: "strip_common xs (xs @ ys) = ([], ys)"
  by (induction xs) (cases ys; simp)+

lemma strip_common_up_Nil: "fst (strip_common xs ys) = [] \<longleftrightarrow> prefix xs ys"
proof
  assume "fst (strip_common xs ys) = []"
  then show "prefix xs ys"
    using strip_common_split [of xs ys] by (cases "strip_common xs ys") auto
qed (auto simp: prefix_def)

text \<open>Going up and down a relative path leads to the target.\<close>

lemma norm_relative_segs:
  assumes "\<forall>s\<in>set xs. plain s" "\<forall>s\<in>set ys. plain s"
  shows "norm_segs False (rev xs) (relative_segs xs ys) = ys"
proof -
  obtain us ds where sc: "strip_common xs ys = (us, ds)" by force
  then obtain cs where split: "xs = cs @ us" "ys = cs @ ds" using strip_common_split by blast
  with assms have "norm_segs False (drop (length us) (rev xs)) ds = ys"
    by (subst norm_segs_plain) auto
  moreover have "relative_segs xs ys = replicate (length us) ''..'' @ ds"
    by (simp add: relative_segs_def sc)
  moreover have "length us \<le> length (rev xs)" using split by simp
  ultimately show ?thesis using assms(1) by (simp add: norm_segs_pop)
qed

lemma isAbsolute_Nil [simp]: "\<not> isAbsolute []"
  by (simp add: isAbsolute_def starts_with_def)

lemma isAbsolute_Cons [simp]: "isAbsolute (c # p) \<longleftrightarrow> c = CHR ''/''"
  by (simp add: isAbsolute_def starts_with_def)

lemma of_segs_not_absolute:
  "\<forall>s\<in>set ss. s \<noteq> '''' \<and> CHR ''/'' \<notin> set s \<Longrightarrow> \<not> isAbsolute (of_segs ss)"
  by (cases ss; cases "hd ss") (auto simp: of_segs_def join_Cons)

lemma relative_segs_ok:
  assumes "\<forall>s\<in>set ys. plain s"
  shows "\<forall>s\<in>set (relative_segs xs ys). s \<noteq> '''' \<and> CHR ''/'' \<notin> set s"
proof -
  obtain us ds where sc: "strip_common xs ys = (us, ds)" by force
  then obtain cs where "ys = cs @ ds" using strip_common_split by blast
  with assms have "\<forall>s\<in>set ds. s \<noteq> '''' \<and> CHR ''/'' \<notin> set s" by (simp add: plain_def)
  then show ?thesis by (auto simp: relative_segs_def sc)
qed

lemma norm_segments_of_segs:
  assumes "\<forall>s\<in>set ss. CHR ''/'' \<notin> set s"
  shows "norm_segs up acc (segments (of_segs ss)) = norm_segs up acc ss"
  using assms by (cases "ss = []") (simp_all add: segments_of_segs)

lemma resolve_two:
  "\<not> isAbsolute q \<Longrightarrow> resolve_segs cwd [p, q] = norm_segs False (rev (resolve_segs cwd [p])) (segments q)"
  by (simp add: resolve_segs_def norm_segs_append)

text \<open>\<open>path.resolve(from, path.relative(from, to))\<close> is \<open>path.resolve(to)\<close>.\<close>

lemma relative_segs_same [simp]: "relative_segs xs xs = []"
  by (simp add: relative_segs_def)

lemma path_relative_segs:
  "path_relative cwd p q = of_segs (relative_segs (resolve_segs cwd [p]) (resolve_segs cwd [q]))"
  by (simp add: path_relative_def)

lemma path_relative_not_absolute: "\<not> isAbsolute (path_relative cwd p q)"
  unfolding path_relative_segs by (rule of_segs_not_absolute, rule relative_segs_ok) simp

lemma resolve_path_relative:
  "resolve_segs cwd [p, path_relative cwd p q] = resolve_segs cwd [q]"
proof -
  let ?r = "relative_segs (resolve_segs cwd [p]) (resolve_segs cwd [q])"
  have ok: "\<forall>s\<in>set ?r. s \<noteq> '''' \<and> CHR ''/'' \<notin> set s"
    by (rule relative_segs_ok) simp
  have "resolve_segs cwd [p, path_relative cwd p q] =
        norm_segs False (rev (resolve_segs cwd [p])) (segments (of_segs ?r))"
    by (simp add: resolve_two path_relative_not_absolute flip: path_relative_segs)
  also have "\<dots> = resolve_segs cwd [q]"
    using ok by (simp add: norm_segments_of_segs norm_relative_segs)
  finally show ?thesis .
qed

text \<open>The link text adds \<open>./\<close> in front, which resolves to the same place.\<close>

lemma resolve_dot_slash:
  assumes "\<not> isAbsolute q"
  shows "resolve_segs cwd [p, ''./'' @ q] = resolve_segs cwd [p, q]"
  using assms by (simp add: resolve_two) (simp add: segments_def)

lemma relative_resolves:
  "resolve_segs cwd [path_dirname p, relative cwd p q] = resolve_segs cwd [q]"
  using resolve_dot_slash [of "path_relative cwd (path_dirname p) q"]
  by (simp add: relative_def Let_def resolve_path_relative path_relative_not_absolute)

section \<open>Staying below a directory\<close>

text \<open>The test of \<open>localTarget\<close> for a path that leaves the root.\<close>

definition leaves :: "string \<Rightarrow> bool" where
  "leaves source = (source = ''..'' \<or> starts_with source ''../'' \<or> isAbsolute source)"

lemma repositoryPath_relative: "repositoryPath cwd root p = path_relative cwd root p"
  by (simp add: repositoryPath_def)

lemma of_segs_dotdot:
  "of_segs (''..'' # ss) = ''..'' \<or> starts_with (of_segs (''..'' # ss)) ''../''"
  by (cases ss) (auto simp: of_segs_def starts_with_def)

lemma plain_not_leaves:
  assumes "\<forall>s\<in>set ss. plain s"
  shows "\<not> leaves (of_segs ss)"
proof (cases ss)
  case (Cons s ts)
  with assms have s: "plain s" by simp
  have "segments (of_segs ss) = ss" using Cons assms by (intro segments_of_segs) (auto simp: plain_def)
  then have hd: "hd (segments (of_segs ss)) = s" using Cons by simp
  have "segments ''..'' = [''..'']" by (simp add: segments_def)
  moreover have "hd (segments (''../'' @ t)) = ''..''" for t by (simp add: segments_def)
  ultimately show ?thesis
    using hd s assms
    by (auto simp: leaves_def starts_with_prefix prefix_def plain_def of_segs_not_absolute)
qed (simp add: leaves_def starts_with_def)

lemma leaves_iff:
  "leaves (repositoryPath cwd root p) \<longleftrightarrow> \<not> prefix (resolve_segs cwd [root]) (resolve_segs cwd [p])"
proof -
  let ?xs = "resolve_segs cwd [root]" and ?ys = "resolve_segs cwd [p]"
  obtain us ds where sc: "strip_common ?xs ?ys = (us, ds)" by force
  then obtain cs where ys: "?ys = cs @ ds" using strip_common_split by blast
  have ds: "\<forall>s\<in>set ds. plain s"
  proof
    fix s assume "s \<in> set ds"
    then have "s \<in> set ?ys" using ys by simp
    then show "plain s" by (rule resolve_segs_plain)
  qed
  have rel: "repositoryPath cwd root p = of_segs (replicate (length us) ''..'' @ ds)"
    by (simp add: repositoryPath_relative path_relative_segs relative_segs_def sc)
  show ?thesis
  proof (cases us)
    case Nil
    then show ?thesis using rel plain_not_leaves [OF ds] strip_common_up_Nil [of ?xs ?ys] sc by simp
  next
    case (Cons u us')
    then have "leaves (repositoryPath cwd root p)"
      using rel of_segs_dotdot [of "replicate (length us') ''..'' @ ds"] by (auto simp: leaves_def)
    moreover have "\<not> prefix ?xs ?ys" using Cons strip_common_up_Nil [of ?xs ?ys] sc by simp
    ultimately show ?thesis by simp
  qed
qed

lemma repositoryPath_inside:
  assumes "\<not> leaves (repositoryPath cwd root p)"
  obtains ss where "resolve_segs cwd [p] = resolve_segs cwd [root] @ ss"
    and "repositoryPath cwd root p = of_segs ss" and "\<forall>s\<in>set ss. plain s"
proof -
  obtain ss where p: "resolve_segs cwd [p] = resolve_segs cwd [root] @ ss"
    using assms by (auto simp: leaves_iff prefix_def)
  have "\<forall>s\<in>set ss. plain s"
  proof
    fix s assume "s \<in> set ss"
    then have "s \<in> set (resolve_segs cwd [p])" using p by simp
    then show "plain s" by (rule resolve_segs_plain)
  qed
  moreover have "repositoryPath cwd root p = of_segs ss"
    by (simp add: repositoryPath_relative path_relative_segs relative_segs_def p)
  ultimately show ?thesis using that p by blast
qed

text \<open>A resolved path resolves to itself.\<close>

lemma resolve_absolute: "isAbsolute p \<Longrightarrow> resolve_segs cwd [p] = norm_segs False [] (segments p)"
  by (simp add: resolve_segs_def)

lemma resolve_path_resolve [simp]: "resolve_segs cwd [path_resolve cwd' ps] = resolve_segs cwd' ps"
proof -
  let ?ss = "resolve_segs cwd' ps"
  have plain: "\<forall>s\<in>set ?ss. plain s" by (simp add: resolve_segs_plain)
  have "norm_segs False [] (segments (''/'' @ of_segs ?ss)) = norm_segs False [] (segments (of_segs ?ss))"
    by (simp add: segments_def)
  also have "\<dots> = ?ss"
    using plain by (simp add: norm_segments_of_segs norm_segs_plain plain_no_slash)
  finally show ?thesis by (simp add: resolve_absolute path_resolve_def)
qed

section \<open>Joining paths\<close>

text \<open>\<open>normalize\<close> and \<open>join\<close> do not change what a path resolves to.\<close>

lemma norm_segs_twice:
  assumes "\<forall>s\<in>set st. s \<noteq> '''' \<and> s \<noteq> ''.''"
  shows "norm_segs False acc (norm_segs True st ss) = norm_segs False acc (rev st @ ss)"
  using assms
proof (induction ss arbitrary: st)
  case (Cons s ss)
  show ?case
  proof (cases "s = ''..'' \<and> st \<noteq> [] \<and> hd st \<noteq> ''..''")
    case True
    then obtain h tl where "st = h # tl" "h \<noteq> ''..''" by (cases st) auto
    with True Cons show ?thesis by (simp add: norm_segs_append)
  next
    case False
    have "norm_segs False acc (norm_segs True (s # st) ss) = norm_segs False acc (rev st @ s # ss)"
      if "s \<noteq> ''''" "s \<noteq> ''.''" using Cons.IH [of "s # st"] Cons.prems that by simp
    with False Cons.IH [OF Cons.prems] show ?thesis by (auto simp: norm_segs_append)
  qed
qed simp

lemma norm_segs_keep: "norm_segs up acc (ss @ [[]]) = norm_segs up acc ss"
  by (simp add: norm_segs_append)

lemma norm_segs_slash: "norm_segs up acc (segments (CHR ''/'' # p)) = norm_segs up acc (segments p)"
  by (simp add: segments_def)

lemma split_on_snoc: "split_on c (s @ [c]) = split_on c s @ [[]]"
  by (induction s) auto

lemma norm_segs_trailing: "norm_segs up acc (segments (p @ ''/'')) = norm_segs up acc (segments p)"
  by (simp add: segments_def split_on_snoc norm_segs_keep)

lemma norm_segs_no_slash:
  "s \<in> set (norm_segs up [] (segments p)) \<Longrightarrow> CHR ''/'' \<notin> set s"
  using norm_segs_mem [of s up "[]"] by (auto dest: segments_no_slash)

lemma norm_segs_again:
  "norm_segs False acc (segments (of_segs (norm_segs True [] (segments p)))) =
   norm_segs False acc (segments p)"
  by (simp add: norm_segments_of_segs norm_segs_no_slash norm_segs_twice)

lemma resolve_relative_path:
  "\<not> isAbsolute p \<Longrightarrow> resolve_segs cwd [p] = norm_segs False (rev (resolve_segs cwd [])) (segments p)"
  by (simp add: resolve_segs_def norm_segs_append)

lemma norm_False_again:
  "norm_segs False [] (segments (of_segs (norm_segs False [] (segments p)))) =
   norm_segs False [] (segments p)"
proof -
  have "\<forall>s\<in>set (norm_segs False [] (segments p)). plain s"
    by (rule norm_segs_plain_only) (auto dest: segments_no_slash)
  then show ?thesis by (simp add: norm_segments_of_segs norm_segs_plain plain_no_slash)
qed

lemma norm_segs_not_absolute: "\<not> isAbsolute (of_segs (norm_segs up [] (segments p)))"
  using norm_segs_mem [of _ up "[]" "segments p"] norm_segs_no_slash [of _ up p]
  by (intro of_segs_not_absolute) auto

lemma resolve_slash: "resolve_segs cwd [CHR ''/'' # p] = norm_segs False [] (segments p)"
  by (simp add: resolve_absolute norm_segs_slash)

lemma isAbsolute_append: "p \<noteq> '''' \<Longrightarrow> isAbsolute (p @ q) = isAbsolute p"
  by (cases p) auto

lemma resolve_trailing: "p \<noteq> '''' \<Longrightarrow> resolve_segs cwd [p @ ''/''] = resolve_segs cwd [p]"
  by (cases "isAbsolute p")
    (simp_all add: resolve_absolute resolve_relative_path norm_segs_trailing isAbsolute_append)

lemma resolve_normalize: "resolve_segs cwd [path_normalize p] = resolve_segs cwd [p]"
proof (cases "isAbsolute p")
  case True
  let ?q = "of_segs (norm_segs False [] (segments p))"
  have "resolve_segs cwd [CHR ''/'' # ?q] = resolve_segs cwd [p]"
    using True by (simp add: resolve_slash norm_False_again resolve_absolute)
  with resolve_trailing [of "CHR ''/'' # ?q" cwd] True show ?thesis
    by (auto simp: path_normalize_def Let_def)
next
  case False
  let ?q = "of_segs (norm_segs True [] (segments p))"
  have q: "resolve_segs cwd [?q] = resolve_segs cwd [p]"
    using False by (simp add: resolve_relative_path norm_segs_not_absolute norm_segs_again)
  have dot: "resolve_segs cwd [''.''] = resolve_segs cwd ['''']" "resolve_segs cwd [''./''] = resolve_segs cwd ['''']"
    by (simp_all add: resolve_relative_path segments_def)
  from q dot resolve_trailing [of ?q cwd] False show ?thesis
    by (cases "p = ''''") (auto simp: path_normalize_def Let_def)
qed

lemma segments_append: "segments (p @ CHR ''/'' # q) = segments p @ segments q"
  unfolding segments_def by (induction p) auto

lemma resolve_join:
  assumes "p \<noteq> ''''" "q \<noteq> ''''"
  shows "resolve_segs cwd [path_join [p, q]] = norm_segs False (rev (resolve_segs cwd [p])) (segments q)"
proof -
  show ?thesis
    using assms
    by (cases "isAbsolute p")
      (simp_all add: path_join_def resolve_normalize resolve_absolute resolve_relative_path
        segments_append norm_segs_append isAbsolute_append)
qed

section \<open>Paths of plain names\<close>

lemma dropWhile_no_slash: "CHR ''/'' \<notin> set f \<Longrightarrow> f \<noteq> [] \<Longrightarrow>
    dropWhile (\<lambda>x. x = CHR ''/'') (rev f @ r) = rev f @ r"
  by (cases f rule: rev_cases) auto

lemma dirname_append:
  assumes "f \<noteq> []" "CHR ''/'' \<notin> set f" "d \<noteq> []" "\<not> isAbsolute d"
  shows "path_dirname (d @ ''/'' @ f) = d"
proof -
  obtain c d' where d: "d = c # d'" using assms(3) by (cases d) auto
  have "dropWhile (\<lambda>x. x \<noteq> CHR ''/'') (rev f @ CHR ''/'' # rev d') = CHR ''/'' # rev d'"
    using assms(2) by (subst dropWhile_append2) auto
  with assms d show ?thesis
    by (simp add: path_dirname_def dropWhile_no_slash Let_def)
qed

lemma dirname_single:
  assumes "CHR ''/'' \<notin> set f"
  shows "path_dirname f = ''.''"
proof (cases f)
  case (Cons c q)
  have "x \<noteq> CHR ''/''" if "x \<in> set (dropWhile (\<lambda>x. x = CHR ''/'') (rev q))" for x
    using set_dropWhileD [OF that] assms Cons by auto
  then have "dropWhile (\<lambda>x. x \<noteq> CHR ''/'') (dropWhile (\<lambda>x. x = CHR ''/'') (rev q)) = []"
    unfolding dropWhile_eq_Nil_conv by blast
  moreover have "c \<noteq> CHR ''/''" using assms Cons by auto
  ultimately show ?thesis by (simp only: Cons path_dirname_def list.case Let_def if_True if_False refl simp_thms)
qed (simp add: path_dirname_def)

lemma of_segs_snoc: "ds \<noteq> [] \<Longrightarrow> of_segs (ds @ [f]) = of_segs ds @ ''/'' @ f"
  by (induction ds) (auto simp: of_segs_def join_Cons)

lemma of_segs_plain_relative: "\<forall>s\<in>set ss. plain s \<Longrightarrow> \<not> isAbsolute (of_segs ss)"
  by (rule of_segs_not_absolute) (auto simp: plain_def)

lemma of_segs_eq_Nil: "\<forall>s\<in>set ss. plain s \<Longrightarrow> of_segs ss = [] \<longleftrightarrow> ss = []"
  by (cases ss) (auto simp: of_segs_def join_Cons plain_def)

lemma resolve_plain:
  assumes "\<forall>s\<in>set ss. plain s"
  shows "resolve_segs cwd [of_segs ss] = resolve_segs cwd [] @ ss"
  using assms
  by (simp add: resolve_relative_path of_segs_plain_relative norm_segments_of_segs norm_segs_plain plain_no_slash)

lemma resolve_dot: "resolve_segs cwd [''.''] = resolve_segs cwd []"
  using resolve_relative_path [of "''.''" cwd] by (simp add: segments_def)

lemma resolve_dirname:
  assumes "\<forall>s\<in>set (ds @ [f]). plain s"
  shows "resolve_segs cwd [path_dirname (of_segs (ds @ [f]))] = resolve_segs cwd [] @ ds"
proof (cases "ds = []")
  case True
  with assms show ?thesis by (simp add: of_segs_def dirname_single plain_def resolve_dot)
next
  case False
  have ds: "\<forall>s\<in>set ds. plain s" and f: "f \<noteq> []" "CHR ''/'' \<notin> set f"
    using assms by (simp_all add: plain_def)
  have "path_dirname (of_segs ds @ ''/'' @ f) = of_segs ds"
    using dirname_append [OF f] False ds of_segs_eq_Nil [OF ds] of_segs_plain_relative [OF ds] by blast
  then have "path_dirname (of_segs (ds @ [f])) = of_segs ds" using False by (simp add: of_segs_snoc)
  with assms show ?thesis by (simp add: resolve_plain)
qed

lemma strip_common_append: "strip_common (cs @ xs) (cs @ ys) = strip_common xs ys"
  by (induction cs) auto

text \<open>Between plain relative paths the link does not depend on the working directory.\<close>

lemma relative_plain:
  assumes "\<forall>s\<in>set (ds @ [f]). plain s" "\<forall>s\<in>set es. plain s"
  shows "relative cwd (of_segs (ds @ [f])) (of_segs es) =
    (let r = of_segs (relative_segs ds es) in if starts_with r ''.'' then r else ''./'' @ r)"
  using assms
  by (simp add: relative_def path_relative_segs resolve_dirname resolve_plain relative_segs_def
      strip_common_append)

lemma relative_plain_resolves:
  assumes "\<forall>s\<in>set (ds @ [f]). plain s" "\<forall>s\<in>set es. plain s"
  shows "resolve_segs site [path_dirname (of_segs (ds @ [f])), relative cwd (of_segs (ds @ [f])) (of_segs es)] =
    resolve_segs site [of_segs es]"
proof -
  have "relative cwd (of_segs (ds @ [f])) (of_segs es) = relative site (of_segs (ds @ [f])) (of_segs es)"
    using assms by (simp only: relative_plain)
  then show ?thesis by (simp add: relative_resolves)
qed

text \<open>A path of plain names; \<open>glob\<close> returns such paths, relative to its directory.\<close>

definition plain_path :: "string \<Rightarrow> bool" where
  "plain_path p = list_all plain (segments p)"

lemma plain_path_segs:
  assumes "plain_path p"
  obtains ds f where "p = of_segs (ds @ [f])" "\<forall>s\<in>set (ds @ [f]). plain s"
proof -
  have "segments p \<noteq> []" by (simp add: segments_def)
  then obtain ds f where "segments p = ds @ [f]" by (metis rev_exhaust)
  with assms have "p = of_segs (ds @ [f])" "\<forall>s\<in>set (ds @ [f]). plain s"
    by (metis of_segs_segments, simp add: plain_path_def list_all_iff)
  then show ?thesis using that by blast
qed

lemma plain_path_of_segs: "ss \<noteq> [] \<Longrightarrow> \<forall>s\<in>set ss. plain s \<Longrightarrow> plain_path (of_segs ss)"
  by (simp add: plain_path_def segments_of_segs plain_no_slash list_all_iff)

lemma plain_path_resolves:
  assumes "plain_path p" "plain_path q"
  shows "resolve_segs site [path_dirname p, relative cwd p q] = resolve_segs site [q]"
proof -
  obtain ds f where "p = of_segs (ds @ [f])" "\<forall>s\<in>set (ds @ [f]). plain s"
    using assms(1) by (rule plain_path_segs)
  moreover obtain es e where "q = of_segs (es @ [e])" "\<forall>s\<in>set (es @ [e]). plain s"
    using assms(2) by (rule plain_path_segs)
  ultimately show ?thesis by (simp only: relative_plain_resolves)
qed

lemma resolve_Nil_arg: "resolve_segs cwd [''''] = resolve_segs cwd []"
  by (simp add: resolve_relative_path)

text \<open>Joining a plain path appends its names, and \<open>dirname\<close> takes the last one off again.\<close>

lemma plain_path_nonempty: "plain_path q \<Longrightarrow> q \<noteq> ''''"
  by (rule notI) (simp add: plain_path_def plain_def)

lemma join_plain:
  assumes "plain_path q"
  shows "resolve_segs cwd [path_join [p, q]] = resolve_segs cwd [p] @ segments q"
proof -
  have plain: "\<forall>s\<in>set (segments q). plain s" using assms by (simp add: plain_path_def list_all_iff)
  have q: "q \<noteq> ''''" using assms plain_path_nonempty by blast
  show ?thesis
  proof (cases "p = ''''")
    case True
    then have "path_join [p, q] = path_normalize q" using q by (simp add: path_join_def)
    then have "resolve_segs cwd [path_join [p, q]] = resolve_segs cwd [of_segs (segments q)]"
      by (simp only: resolve_normalize of_segs_segments)
    also have "\<dots> = resolve_segs cwd [] @ segments q" by (rule resolve_plain [OF plain])
    finally show ?thesis by (simp add: True resolve_Nil_arg)
  next
    case False
    with q plain show ?thesis by (simp add: resolve_join norm_segs_plain)
  qed
qed

lemma dirname_slash:
  assumes "plain f"
  shows "resolve_segs cwd [path_dirname (d @ ''/'' @ f)] = butlast (resolve_segs cwd [d @ ''/'' @ f])"
proof (cases d)
  case Nil
  have f: "f \<noteq> []" "CHR ''/'' \<notin> set f" using assms by (simp_all add: plain_def)
  have "dropWhile (\<lambda>x. x \<noteq> CHR ''/'') (rev f) = []" using f(2) unfolding dropWhile_eq_Nil_conv by auto
  then have "path_dirname (CHR ''/'' # f) = ''/''"
    using dropWhile_no_slash [OF f(2,1), of "[]"] by (simp add: path_dirname_def)
  moreover have "segments f = [f]" using f by (simp add: segments_def split_on_id)
  ultimately show ?thesis using Nil assms by (simp add: resolve_slash plain_def)
next
  case (Cons c d')
  have f: "f \<noteq> []" "CHR ''/'' \<notin> set f" using assms by (simp_all add: plain_def)
  have "dropWhile (\<lambda>x. x \<noteq> CHR ''/'') (rev f @ CHR ''/'' # rev d') = CHR ''/'' # rev d'"
    using f(2) by (subst dropWhile_append2) auto
  then have "path_dirname (d @ ''/'' @ f) = (if c = CHR ''/'' \<and> d' = [] then ''//'' else d)"
    by (simp add: Cons path_dirname_def dropWhile_no_slash [OF f(2,1)])
  then have dir: "resolve_segs cwd [path_dirname (d @ ''/'' @ f)] = resolve_segs cwd [d]"
    by (auto simp: Cons resolve_slash segments_def)
  have "segments (d @ ''/'' @ f) = segments d @ [f]"
    using f by (simp add: segments_append) (simp add: segments_def split_on_id)
  moreover have "isAbsolute (d @ ''/'' @ f) = isAbsolute d" by (simp add: Cons)
  ultimately have "resolve_segs cwd [d @ ''/'' @ f] = resolve_segs cwd [d] @ [f]"
    using assms by (cases "isAbsolute d") (simp_all add: resolve_absolute resolve_relative_path norm_segs_append plain_def)
  with dir show ?thesis by simp
qed

lemma dirname_last:
  assumes "segments p = ds @ [f]" "plain f"
  shows "resolve_segs cwd [path_dirname p] = butlast (resolve_segs cwd [p])"
proof -
  have p: "p = of_segs (ds @ [f])" using assms(1) of_segs_segments [of p] by simp
  show ?thesis
  proof (cases "ds = []")
    case True
    with p have "p = f" by (simp add: of_segs_def)
    moreover have "resolve_segs cwd [f] = resolve_segs cwd [] @ [f]"
      using resolve_plain [of "[f]" cwd] assms(2) by (simp add: of_segs_def)
    ultimately show ?thesis using assms(2) by (simp add: dirname_single plain_no_slash resolve_dot)
  next
    case False
    with p have "p = of_segs ds @ ''/'' @ f" by (simp add: of_segs_snoc)
    then show ?thesis using dirname_slash [OF assms(2)] by simp
  qed
qed

lemma normalize_last:
  assumes "segments x = ds @ [f]" "plain f"
  shows "\<exists>es. segments (path_normalize x) = es @ [f]"
proof -
  let ?N = "norm_segs (\<not> isAbsolute x) [] ds"
  have f: "f \<noteq> []" "CHR ''/'' \<notin> set f" using assms(2) by (simp_all add: plain_def)
  have N: "norm_segs (\<not> isAbsolute x) [] (segments x) = ?N @ [f]"
    using assms(2) by (simp add: assms(1) norm_segs_append plain_def)
  have x: "x = of_segs (ds @ [f])" using assms(1) of_segs_segments [of x] by simp
  then have "last x = last f" using f by (cases "ds = []") (simp_all add: of_segs_snoc, simp add: of_segs_def)
  then have tr: "last x \<noteq> CHR ''/''" using f last_in_set [of f] by metis
  have x0: "x \<noteq> ''''" using assms(1) f by auto
  have ns: "\<forall>s\<in>set (?N @ [f]). CHR ''/'' \<notin> set s"
    using norm_segs_no_slash [of _ "\<not> isAbsolute x" x] by (simp add: N)
  then have sg: "segments (of_segs (?N @ [f])) = ?N @ [f]" by (intro segments_of_segs) auto
  then have q0: "of_segs (?N @ [f]) \<noteq> ''''" using f by (metis last_snoc segments_Nil last.simps)
  have "path_normalize x = (if isAbsolute x then ''/'' else '''') @ of_segs (?N @ [f])"
    using x0 tr q0 by (simp add: path_normalize_def N)
  moreover have "segments (CHR ''/'' # of_segs (?N @ [f])) = [] # ?N @ [f]"
    using sg by (simp add: segments_def)
  ultimately have "segments (path_normalize x) = (if isAbsolute x then [] # ?N else ?N) @ [f]"
    using sg by (cases "isAbsolute x") simp_all
  then show ?thesis by blast
qed

lemma dirname_join_plain:
  assumes "plain_path q"
  shows "resolve_segs cwd [path_dirname (path_join [p, q])] = resolve_segs cwd [p] @ butlast (segments q)"
proof -
  obtain ds f where q: "q = of_segs (ds @ [f])" and plain: "\<forall>s\<in>set (ds @ [f]). plain s"
    using assms by (rule plain_path_segs)
  have "\<forall>s\<in>set (ds @ [f]). CHR ''/'' \<notin> set s" using plain by (simp add: plain_def)
  then have sq: "segments q = ds @ [f]" unfolding q by (intro segments_of_segs) simp_all
  have q0: "q \<noteq> ''''" using assms plain_path_nonempty by blast
  have "\<exists>es. segments (path_join [p, q]) = es @ [f]"
  proof (cases "p = ''''")
    case True
    then show ?thesis using normalize_last [OF sq] plain q0 by (simp add: path_join_def)
  next
    case False
    then have "segments (join ''/'' [p, q]) = (segments p @ ds) @ [f]" by (simp add: segments_append sq)
    from normalize_last [OF this] plain q0 False show ?thesis by (simp add: path_join_def)
  qed
  then obtain es where "segments (path_join [p, q]) = es @ [f]" by blast
  from dirname_last [OF this] plain join_plain [OF assms, of cwd p] show ?thesis by (simp add: sq butlast_append)
qed

section \<open>Properties\<close>

text \<open>
  C23: a link made by \<open>relative(from, to)\<close>, followed from the directory of \<open>from\<close>, leads to
  \<open>to\<close>, for all paths and working directories; and it starts with a dot, so that no link
  checker or renderer takes it for a route or a URL.
\<close>
theorem relative_reaches:
  "resolve_segs cwd [path_dirname p, relative cwd p q] = resolve_segs cwd [q] \<and>
   starts_with (relative cwd p q) ''.''"
  using relative_resolves by (auto simp: relative_def Let_def starts_with_def)

text \<open>
  C22: for a path below the root \<open>repositoryPath\<close> is the rest of the path, without \<open>.\<close> and
  \<open>..\<close> segments, and exactly the paths that are not below the root are those whose
  \<open>repositoryPath\<close> the caller recognises as leaving it.
\<close>
theorem repositoryPath_confines:
  "if prefix (resolve_segs cwd [root]) (resolve_segs cwd [p])
   then resolve_segs cwd [p] = resolve_segs cwd [root] @
          (if repositoryPath cwd root p = '''' then [] else segments (repositoryPath cwd root p))
   else repositoryPath cwd root p = ''..'' \<or> starts_with (repositoryPath cwd root p) ''../''"
proof (cases "prefix (resolve_segs cwd [root]) (resolve_segs cwd [p])")
  case True
  then have "\<not> leaves (repositoryPath cwd root p)" by (simp add: leaves_iff)
  then obtain ss where ss: "resolve_segs cwd [p] = resolve_segs cwd [root] @ ss"
    "repositoryPath cwd root p = of_segs ss" "\<forall>s\<in>set ss. plain s"
    by (rule repositoryPath_inside)
  have "(if of_segs ss = '''' then [] else segments (of_segs ss)) = ss"
    using ss(3) by (auto simp: of_segs_eq_Nil plain_no_slash intro!: segments_of_segs)
  with True ss(1,2) show ?thesis by (simp split: if_splits)
next
  case False
  then have "leaves (repositoryPath cwd root p)" by (simp add: leaves_iff)
  then show ?thesis
    using False path_relative_not_absolute [of cwd root p] by (simp add: leaves_def repositoryPath_relative)
qed

end
