(* ===== verification/FileSystem.thy ===== *)
theory FileSystem
  imports PosixPath JsValue
begin

text \<open>
  The file system as the assembler uses it through \<open>node:fs\<close>: a map from absolute paths
  (segment lists) to files and directories, without symbolic links, permissions or I/O
  failures. Reading never changes it; the writing phase of \<open>assemble\<close> is a sequence of
  operations, run until one fails, and the state after a failure is kept. The interface
  \<open>framed_machine\<close> says which paths such a sequence can change.
\<close>

section \<open>State and reads\<close>

datatype fnode = FFile string | FDir

type_synonym fs = "segs \<Rightarrow> fnode option"

definition is_file :: "fs \<Rightarrow> segs \<Rightarrow> bool" where
  "is_file fs p = (case fs p of Some (FFile t) \<Rightarrow> True | _ \<Rightarrow> False)"

text \<open>System errors with the detail that Node prints after the code.\<close>

definition fs_error :: "string \<Rightarrow> string \<Rightarrow> segs \<Rightarrow> doc_error" where
  "fs_error c detail p = FsError c (detail @ '' '' @ [CHR 0x27] @ ''/'' @ of_segs p @ [CHR 0x27])"

text \<open>Opening a path that does not exist, or that lies below a file.\<close>

definition open_error :: "fs \<Rightarrow> segs \<Rightarrow> doc_error" where
  "open_error fs p =
     (if list_ex (is_file fs) (prefixes p) then fs_error ''ENOTDIR'' ''not a directory, open'' p
      else fs_error ''ENOENT'' ''no such file or directory, open'' p)"

definition read_file :: "fs \<Rightarrow> segs \<Rightarrow> doc_error + string" where
  "read_file fs p =
     (case fs p of
        Some (FFile t) \<Rightarrow> Inr t
      | Some FDir \<Rightarrow> Inl (FsError ''EISDIR'' ''illegal operation on a directory, read'')
      | None \<Rightarrow> Inl (open_error fs p))"

definition exists_path :: "fs \<Rightarrow> segs \<Rightarrow> bool" where
  "exists_path fs p = (fs p \<noteq> None)"

definition is_directory :: "fs \<Rightarrow> segs \<Rightarrow> bool" where
  "is_directory fs p = (fs p = Some FDir)"

section \<open>Writes\<close>

datatype fs_op = Rm segs | Mkdir segs | Write segs string

text \<open>
  \<open>rmSync(p, {recursive: true, force: true})\<close>. Below a file there is nothing to remove; whether
  Node reports that case here or at the \<open>mkdirSync\<close> that follows depends on its version, and
  the model has it fail at \<open>mkdirSync\<close>.
\<close>

definition fs_rm :: "segs \<Rightarrow> fs \<Rightarrow> fs" where
  "fs_rm p fs = (\<lambda>q. if prefix p q then None else fs q)"

text \<open>
  \<open>mkdirSync(p, {recursive: true})\<close>: fails, changing nothing, if \<open>p\<close> or an ancestor is a file,
  else creates the missing ancestors and \<open>p\<close>.
\<close>

definition fs_mkdir :: "segs \<Rightarrow> fs \<Rightarrow> doc_error + fs" where
  "fs_mkdir p fs =
     (if is_file fs p then Inl (fs_error ''EEXIST'' ''file already exists, mkdir'' p)
      else if list_ex (is_file fs) (prefixes p) then Inl (fs_error ''ENOTDIR'' ''not a directory, mkdir'' p)
      else Inr (\<lambda>q. if prefix q p \<and> fs q = None then Some FDir else fs q))"

text \<open>\<open>writeFileSync(p, t)\<close>: the parent must be a directory and \<open>p\<close> must not be one.\<close>

definition fs_write :: "segs \<Rightarrow> string \<Rightarrow> fs \<Rightarrow> doc_error + fs" where
  "fs_write p t fs =
     (if p = [] \<or> fs p = Some FDir
      then Inl (fs_error ''EISDIR'' ''illegal operation on a directory, open'' p)
      else if fs (butlast p) \<noteq> Some FDir then Inl (open_error fs p)
      else Inr (fs(p \<mapsto> FFile t)))"

fun fs_step :: "fs \<Rightarrow> fs_op \<Rightarrow> doc_error + fs" where
  "fs_step fs (Rm p) = Inr (fs_rm p fs)"
| "fs_step fs (Mkdir p) = fs_mkdir p fs"
| "fs_step fs (Write p t) = fs_write p t fs"

text \<open>A sequence of operations stops at the first failure and keeps what was done.\<close>

fun run_ops :: "('s \<Rightarrow> 'o \<Rightarrow> 'e + 's) \<Rightarrow> 's \<Rightarrow> 'o list \<Rightarrow> 'e option \<times> 's" where
  "run_ops step s [] = (None, s)"
| "run_ops step s (x # xs) =
     (case step s x of Inl e \<Rightarrow> (Some e, s) | Inr s' \<Rightarrow> run_ops step s' xs)"

section \<open>What a sequence of operations can change\<close>

locale framed_machine =
  fixes step :: "'s \<Rightarrow> 'o \<Rightarrow> 'e + 's"
    and look :: "'s \<Rightarrow> 'p \<Rightarrow> 'v option"
    and touches :: "'o \<Rightarrow> 'p \<Rightarrow> bool"
  assumes step_frame: "step s x = Inr s' \<Longrightarrow> \<not> touches x q \<Longrightarrow> look s' q = look s q"
begin

lemma run_frame:
  assumes "\<And>x. x \<in> set xs \<Longrightarrow> \<not> touches x q"
  shows "look (snd (run_ops step s xs)) q = look s q"
  using assms
proof (induction xs arbitrary: s)
  case (Cons x xs)
  then show ?case
    using step_frame [of s x _ q] by (auto split: sum.splits)
qed simp

lemma run_append:
  "run_ops step s (xs @ ys) =
     (case run_ops step s xs of (None, s') \<Rightarrow> run_ops step s' ys | (Some e, s') \<Rightarrow> (Some e, s'))"
  by (induction xs arbitrary: s) (auto split: sum.splits)

end

fun op_touches :: "fs_op \<Rightarrow> segs \<Rightarrow> bool" where
  "op_touches (Rm p) q = prefix p q"
| "op_touches (Mkdir p) q = prefix q p"
| "op_touches (Write p t) q = (q = p)"

interpretation fsm: framed_machine fs_step "\<lambda>fs q. fs q" op_touches
proof
  fix s x s' q
  assume "fs_step s x = Inr s'" "\<not> op_touches x q"
  then show "s' q = s q"
    by (cases x) (auto simp: fs_rm_def fs_mkdir_def fs_write_def split: if_splits)
qed

text \<open>Creating directories never replaces anything.\<close>

lemma mkdir_keeps: "fs_mkdir p fs = Inr fs' \<Longrightarrow> fs q \<noteq> None \<Longrightarrow> fs' q = fs q"
  by (auto simp: fs_mkdir_def split: if_splits)

section \<open>The result of a successful sequence\<close>

fun is_rm :: "fs_op \<Rightarrow> bool" where
  "is_rm (Rm p) = True"
| "is_rm _ = False"

text \<open>The last text written to a path.\<close>

fun last_write :: "fs_op list \<Rightarrow> segs \<Rightarrow> string option" where
  "last_write [] q = None"
| "last_write (x # xs) q =
     (case last_write xs q of
        Some t \<Rightarrow> Some t
      | None \<Rightarrow> (case x of Write p t \<Rightarrow> if p = q then Some t else None | _ \<Rightarrow> None))"

definition made_dir :: "fs_op list \<Rightarrow> segs \<Rightarrow> bool" where
  "made_dir xs q = list_ex (\<lambda>x. case x of Mkdir p \<Rightarrow> prefix q p | _ \<Rightarrow> False) xs"

lemma made_dir_iff: "made_dir xs q \<longleftrightarrow> (\<exists>p. Mkdir p \<in> set xs \<and> prefix q p)"
proof
  assume "made_dir xs q"
  then obtain x where "x \<in> set xs" "case x of Mkdir p \<Rightarrow> prefix q p | _ \<Rightarrow> False"
    unfolding made_dir_def list_ex_iff by blast
  then show "\<exists>p. Mkdir p \<in> set xs \<and> prefix q p" by (auto split: fs_op.splits)
qed (force simp: made_dir_def list_ex_iff)

lemma mkdir_not_file: "fs_mkdir p fs = Inr fs' \<Longrightarrow> prefix q p \<Longrightarrow> fs q \<noteq> Some (FFile t)"
  by (auto simp: fs_mkdir_def list_ex_iff is_file_def split: if_splits dest!: bspec [of _ _ q])

lemma write_not_dir: "fs_write p t fs = Inr fs' \<Longrightarrow> fs p \<noteq> Some FDir"
  by (auto simp: fs_write_def split: if_splits)

lemma run_keeps_file_or_dir:
  assumes "run_ops fs_step fs xs = (None, fs')" "\<not> list_ex is_rm xs"
  shows "fs' q =
    (case last_write xs q of
       Some t \<Rightarrow> Some (FFile t)
     | None \<Rightarrow> if fs q = None \<and> made_dir xs q then Some FDir else fs q)"
  using assms
proof (induction xs arbitrary: fs)
  case (Cons x xs)
  then obtain fs1 where x: "fs_step fs x = Inr fs1" and run: "run_ops fs_step fs1 xs = (None, fs')"
    by (auto split: sum.splits)
  note IH = Cons.IH [OF run]
  show ?case
  proof (cases x)
    case (Rm p)
    with Cons.prems show ?thesis by simp
  next
    case (Mkdir p)
    with x have "fs1 q = (if prefix q p \<and> fs q = None then Some FDir else fs q)"
      by (auto simp: fs_mkdir_def split: if_splits)
    with IH Mkdir Cons.prems show ?thesis by (auto simp: made_dir_def split: option.splits)
  next
    case (Write p t)
    with x have "fs1 = fs(p \<mapsto> FFile t)" by (auto simp: fs_write_def split: if_splits)
    with IH Write Cons.prems show ?thesis by (auto simp: made_dir_def split: option.splits)
  qed
qed (simp add: made_dir_def)

text \<open>
  Directories and files fit together: the root is a directory and whatever exists lies in
  a directory.
\<close>

definition fs_wf :: "fs \<Rightarrow> bool" where
  "fs_wf fs \<longleftrightarrow> fs [] = Some FDir \<and> (\<forall>p x. fs (p @ [x]) \<noteq> None \<longrightarrow> fs p = Some FDir)"

lemma fs_wf_parent: "fs_wf fs \<Longrightarrow> fs (p @ [x]) \<noteq> None \<Longrightarrow> fs p = Some FDir"
  unfolding fs_wf_def by blast

lemma fs_wf_ancestor: "fs_wf fs \<Longrightarrow> fs (p @ r) \<noteq> None \<Longrightarrow> r \<noteq> [] \<Longrightarrow> fs p = Some FDir"
proof (induction r rule: rev_induct)
  case (snoc x r)
  then have "fs (p @ r) = Some FDir" by (metis append.assoc fs_wf_parent)
  with snoc show ?case by (cases "r = []") auto
qed simp

lemma fs_wf_step:
  assumes wf: "fs_wf fs" and nonroot: "x \<noteq> Rm []" and step: "fs_step fs x = Inr fs'"
  shows "fs_wf fs'"
proof (cases x)
  case (Rm p)
  with step have fs': "fs' = fs_rm p fs" by simp
  have "fs' q = Some FDir" if "fs' (q @ [y]) \<noteq> None" for q y
  proof -
    from that have "\<not> prefix p (q @ [y])" "fs (q @ [y]) \<noteq> None" by (auto simp: fs' fs_rm_def split: if_splits)
    then show ?thesis using wf by (auto simp: fs' fs_rm_def prefix_def dest: fs_wf_parent)
  qed
  with wf nonroot Rm show ?thesis by (auto simp: fs_wf_def fs' fs_rm_def)
next
  case (Mkdir p)
  with step have fs': "fs' = (\<lambda>q. if prefix q p \<and> fs q = None then Some FDir else fs q)"
    and nofile: "\<And>q t. prefix q p \<Longrightarrow> fs q \<noteq> Some (FFile t)"
    using mkdir_not_file [of p fs fs'] by (auto simp: fs_mkdir_def split: if_splits)
  have "fs' q = Some FDir" if "fs' (q @ [y]) \<noteq> None" for q y
  proof (cases "prefix (q @ [y]) p")
    case True
    then have "prefix q p" by (metis append_prefixD)
    moreover have "fs q = None \<or> fs q = Some FDir"
      using nofile [OF \<open>prefix q p\<close>] by (metis fnode.exhaust option.exhaust)
    ultimately show ?thesis by (auto simp: fs')
  next
    case False
    with that have "fs (q @ [y]) \<noteq> None" by (simp add: fs')
    with wf have "fs q = Some FDir" by (rule fs_wf_parent)
    then show ?thesis by (simp add: fs')
  qed
  with wf show ?thesis by (auto simp: fs_wf_def fs')
next
  case (Write p t)
  with step have fs': "fs' = fs(p \<mapsto> FFile t)" and p: "p \<noteq> []" "fs p \<noteq> Some FDir"
    and parent: "fs (butlast p) = Some FDir"
    by (auto simp: fs_write_def split: if_splits)
  have "fs' q = Some FDir" if "fs' (q @ [y]) \<noteq> None" for q y
  proof (cases "q @ [y] = p")
    case True
    with parent p show ?thesis by (auto simp: fs')
  next
    case False
    with that have "fs (q @ [y]) \<noteq> None" by (simp add: fs')
    with wf have "fs q = Some FDir" by (rule fs_wf_parent)
    with p show ?thesis by (auto simp: fs')
  qed
  with wf p show ?thesis by (auto simp: fs_wf_def fs')
qed

section \<open>When a sequence of operations succeeds\<close>

text \<open>Each file is written below a directory that was created before, or is in \<open>ds\<close>.\<close>

fun parents_made :: "segs set \<Rightarrow> fs_op list \<Rightarrow> bool" where
  "parents_made ds [] = True"
| "parents_made ds (Rm p # xs) = False"
| "parents_made ds (Mkdir p # xs) = parents_made (insert p ds) xs"
| "parents_made ds (Write p t # xs) = (p \<noteq> [] \<and> butlast p \<in> ds \<and> parents_made ds xs)"

lemma parents_made_mono: "parents_made ds xs \<Longrightarrow> ds \<subseteq> es \<Longrightarrow> parents_made es xs"
  by (induction ds xs arbitrary: es rule: parents_made.induct) (auto dest: insert_mono)

lemma parents_made_append:
  "parents_made ds xs \<Longrightarrow> parents_made {} ys \<Longrightarrow> parents_made ds (xs @ ys)"
  by (induction ds xs rule: parents_made.induct) (auto intro: parents_made_mono)

lemma parents_made_concat: "(\<And>x. x \<in> set xs \<Longrightarrow> parents_made {} (f x)) \<Longrightarrow> parents_made {} (concat (map f xs))"
  by (induction xs) (auto intro: parents_made_append)

text \<open>No directory is made at or below a written file, and nothing clashes with what exists.\<close>

definition no_clash :: "fs \<Rightarrow> fs_op list \<Rightarrow> bool" where
  "no_clash fs xs \<longleftrightarrow>
     (\<forall>p t d. Write p t \<in> set xs \<longrightarrow> Mkdir d \<in> set xs \<longrightarrow> \<not> prefix p d) \<and>
     (\<forall>d q. Mkdir d \<in> set xs \<longrightarrow> prefix q d \<longrightarrow> \<not> is_file fs q) \<and>
     (\<forall>p t. Write p t \<in> set xs \<longrightarrow> fs p \<noteq> Some FDir)"

lemma no_clashD:
  assumes "no_clash fs xs"
  shows "Write p t \<in> set xs \<Longrightarrow> Mkdir d \<in> set xs \<Longrightarrow> \<not> prefix p d"
    and "Mkdir d \<in> set xs \<Longrightarrow> prefix q d \<Longrightarrow> \<not> is_file fs q"
    and "Write p t \<in> set xs \<Longrightarrow> fs p \<noteq> Some FDir"
  using assms unfolding no_clash_def by blast+

lemma mkdir_succeeds:
  assumes "no_clash fs (Mkdir d # xs)"
  obtains fs1 where "fs_mkdir d fs = Inr fs1" "no_clash fs1 xs" "fs1 d = Some FDir"
    "\<And>q. fs q = Some FDir \<Longrightarrow> fs1 q = Some FDir"
proof -
  let ?fs1 = "\<lambda>q. if prefix q d \<and> fs q = None then Some FDir else fs q"
  have nf: "\<not> is_file fs q" if "prefix q d" for q using no_clashD(2) [OF assms _ that] by simp
  then have "fs_mkdir d fs = Inr ?fs1" by (auto simp: fs_mkdir_def list_ex_iff)
  moreover have "no_clash ?fs1 xs"
    using assms nf unfolding no_clash_def is_file_def by (auto split: option.splits)
  moreover have "?fs1 d = Some FDir"
    using nf [of d] by (auto simp: is_file_def split: option.splits fnode.splits)
  ultimately show ?thesis using that by auto
qed

lemma run_succeeds:
  assumes "parents_made ds xs" "no_clash fs xs" "\<forall>d\<in>ds. fs d = Some FDir"
  shows "\<exists>fs'. run_ops fs_step fs xs = (None, fs')"
  using assms
proof (induction ds xs arbitrary: fs rule: parents_made.induct)
  case (3 ds d xs)
  obtain fs1 where fs1: "fs_mkdir d fs = Inr fs1" "no_clash fs1 xs" "fs1 d = Some FDir"
    "\<And>q. fs q = Some FDir \<Longrightarrow> fs1 q = Some FDir"
    using mkdir_succeeds [OF 3(3)] by blast
  with 3 have "\<exists>fs'. run_ops fs_step fs1 xs = (None, fs')" by (intro "3.IH") auto
  with fs1(1) show ?case by simp
next
  case (4 ds p t xs)
  have p: "p \<noteq> []" "fs (butlast p) = Some FDir" "fs p \<noteq> Some FDir"
    using 4(2,4) no_clashD(3) [OF 4(3)] by auto
  then have w: "fs_write p t fs = Inr (fs(p \<mapsto> FFile t))" by (simp add: fs_write_def)
  have "no_clash (fs(p \<mapsto> FFile t)) xs"
    using 4(3) unfolding no_clash_def is_file_def by (auto split: if_splits)
  moreover have "\<forall>d\<in>ds. (fs(p \<mapsto> FFile t)) d = Some FDir" using 4(4) p(3) by auto
  ultimately have "\<exists>fs'. run_ops fs_step (fs(p \<mapsto> FFile t)) xs = (None, fs')" using 4 by auto
  with w show ?case by simp
qed auto

text \<open>With one text per path, the last text written is the one written.\<close>

lemma last_write_mem: "last_write xs q = Some t \<Longrightarrow> Write q t \<in> set xs"
  by (induction xs) (auto split: option.splits fs_op.splits if_splits)

lemma last_write_None: "last_write xs q = None \<longleftrightarrow> (\<forall>t. Write q t \<notin> set xs)"
proof (induction xs)
  case (Cons x xs)
  then show ?case by (cases x) (auto split: option.splits)
qed simp

lemma last_write_unique:
  assumes "\<And>p s t. Write p s \<in> set xs \<Longrightarrow> Write p t \<in> set xs \<Longrightarrow> s = t"
  shows "last_write xs q = Some t \<longleftrightarrow> Write q t \<in> set xs"
proof
  assume t: "Write q t \<in> set xs"
  then obtain s where s: "last_write xs q = Some s" by (cases "last_write xs q") (auto simp: last_write_None)
  with assms [OF last_write_mem [OF s] t] show "last_write xs q = Some t" by simp
qed (rule last_write_mem)

text \<open>A path that is neither removed nor written stays, or a directory is made there.\<close>

lemma run_outside:
  assumes "\<And>t. Write q t \<notin> set xs" "\<And>p. Rm p \<in> set xs \<Longrightarrow> \<not> prefix p q"
  shows "snd (run_ops fs_step fs xs) q = fs q \<or>
    fs q = None \<and> made_dir xs q \<and> snd (run_ops fs_step fs xs) q = Some FDir"
  using assms
proof (induction xs arbitrary: fs)
  case (Cons x xs)
  show ?case
  proof (cases "fs_step fs x")
    case (Inr fs1)
    have IH: "snd (run_ops fs_step fs1 xs) q = fs1 q \<or>
        fs1 q = None \<and> made_dir xs q \<and> snd (run_ops fs_step fs1 xs) q = Some FDir"
      using Cons.prems by (intro Cons.IH) auto
    have "fs1 q = fs q \<or> fs q = None \<and> fs1 q = Some FDir \<and> made_dir [x] q"
      using Inr Cons.prems(1) [of "case x of Write p t \<Rightarrow> t | _ \<Rightarrow> []"] Cons.prems(2)
      by (cases x) (auto simp: fs_rm_def fs_mkdir_def fs_write_def made_dir_def split: if_splits)
    with IH Inr show ?thesis by (auto simp: made_dir_def)
  qed simp
qed simp

lemma run_keeps_wf: "Rm [] \<notin> set xs \<Longrightarrow> fs_wf fs \<Longrightarrow> fs_wf (snd (run_ops fs_step fs xs))"
proof (induction xs arbitrary: fs)
  case (Cons x xs)
  show ?case
  proof (cases "fs_step fs x")
    case (Inr fs1)
    have "fs_wf fs1" using fs_wf_step [OF Cons.prems(2) _ Inr] Cons.prems(1) by auto
    with Cons Inr show ?thesis by simp
  qed (use Cons.prems in simp)
qed simp

text \<open>
  Without removals a sequence that makes a directory at or below a path it also writes cannot
  succeed, in either order.
\<close>

lemma run_file_stays:
  assumes "run_ops fs_step fs xs = (None, fs')" "\<not> list_ex is_rm xs" "is_file fs p" "prefix p d"
  shows "Mkdir d \<notin> set xs"
  using assms(1-3)
proof (induction xs arbitrary: fs)
  case (Cons x xs)
  then obtain fs1 where x: "fs_step fs x = Inr fs1" and run: "run_ops fs_step fs1 xs = (None, fs')"
    by (auto split: sum.splits)
  obtain s where "fs p = Some (FFile s)" using Cons.prems(3) by (auto simp: is_file_def split: option.splits fnode.splits)
  then have "x \<noteq> Mkdir d" using x mkdir_not_file [OF _ assms(4), of fs fs1 s] by auto
  moreover have "is_file fs1 p"
    using x Cons.prems(2,3)
    by (cases x) (auto simp: is_file_def fs_mkdir_def fs_write_def split: if_splits option.splits)
  ultimately show ?case using Cons.IH [OF run] Cons.prems(2) by simp
qed simp

lemma run_dir_stays:
  assumes "run_ops fs_step fs xs = (None, fs')" "\<not> list_ex is_rm xs" "fs p = Some FDir"
  shows "Write p t \<notin> set xs"
  using assms
proof (induction xs arbitrary: fs)
  case (Cons x xs)
  then obtain fs1 where x: "fs_step fs x = Inr fs1" and run: "run_ops fs_step fs1 xs = (None, fs')"
    by (auto split: sum.splits)
  have "x \<noteq> Write p t" using x write_not_dir [of p t fs fs1] Cons.prems(3) by auto
  moreover have "fs1 p = Some FDir"
    using x Cons.prems(2,3) by (cases x) (auto simp: fs_mkdir_def fs_write_def split: if_splits)
  ultimately show ?case using Cons.IH [OF run] Cons.prems(2) by simp
qed simp

lemma run_no_conflict:
  assumes "run_ops fs_step fs xs = (None, fs')" "\<not> list_ex is_rm xs"
    and "Write p t \<in> set xs" "Mkdir d \<in> set xs"
  shows "\<not> prefix p d"
  using assms
proof (induction xs arbitrary: fs)
  case (Cons x xs)
  then obtain fs1 where x: "fs_step fs x = Inr fs1" and run: "run_ops fs_step fs1 xs = (None, fs')"
    by (auto split: sum.splits)
  have nr: "\<not> list_ex is_rm xs" using Cons.prems(2) by simp
  from Cons.prems(3,4) consider "Write p t \<in> set xs" "Mkdir d \<in> set xs" | "x = Write p t" "Mkdir d \<in> set xs"
    | "x = Mkdir d" "Write p t \<in> set xs" by auto
  then show ?case
  proof cases
    case 1
    then show ?thesis using Cons.IH [OF run nr] by blast
  next
    case 2
    then have "is_file fs1 p" using x by (auto simp: is_file_def fs_write_def split: if_splits)
    then show ?thesis using run_file_stays [OF run nr] 2(2) by blast
  next
    case 3
    have "fs1 p = Some FDir" if pre: "prefix p d"
    proof -
      have step: "fs_mkdir d fs = Inr fs1" using x 3(1) by simp
      then have "fs p = None \<or> fs p = Some FDir"
        using mkdir_not_file [OF step pre] by (metis fnode.exhaust option.exhaust)
      with step pre show ?thesis by (auto simp: fs_mkdir_def split: if_splits)
    qed
    then show ?thesis using run_dir_stays [OF run nr] 3(2) by blast
  qed
qed simp

end
