(* ===== verification/CivilDate.thy ===== *)
theory CivilDate
  imports JsString
begin

text \<open>
  The date test of \<open>validateMetadata\<close> (\<open>pages/assemble.mjs\<close>, lines 81-85): the shape
  \<open>YYYY-MM-DD\<close>, \<open>Date.parse\<close> and the round trip through \<open>toISOString\<close>. The calendar
  arithmetic is ECMAScript's (\<open>DayFromYear\<close>, \<open>YearFromTime\<close>, \<open>MakeDay\<close>); \<open>Date.parse\<close> accepts
  every day from 1 to 31 of a month and rolls over, as V8 does, so it is the round trip
  that rejects 30 February. The test is proved to accept exactly the dates of the calendar.
\<close>

section \<open>The calendar\<close>

definition leap :: "int \<Rightarrow> bool" where
  "leap y = (y mod 4 = 0 \<and> (y mod 100 \<noteq> 0 \<or> y mod 400 = 0))"

definition days_in_month :: "bool \<Rightarrow> nat \<Rightarrow> nat" where
  "days_in_month lp m =
     (if m = 2 then (if lp then 29 else 28) else if m \<in> {4, 6, 9, 11} then 30 else 31)"

definition month_start :: "bool \<Rightarrow> nat \<Rightarrow> nat" where
  "month_start lp m = sum_list (map (days_in_month lp) [1..<m])"

definition day_from_year :: "int \<Rightarrow> int" where
  "day_from_year y =
     365 * (y - 1970) + (y - 1969) div 4 - (y - 1901) div 100 + (y - 1601) div 400"

definition make_day :: "int \<Rightarrow> nat \<Rightarrow> nat \<Rightarrow> int" where
  "make_day y m d = day_from_year y + int (month_start (leap y) m) + int d - 1"

text \<open>\<open>YearFromTime\<close>: the largest year that starts no later, from an estimate off by at most one.\<close>

definition year_of_day :: "int \<Rightarrow> int" where
  "year_of_day n =
     (let y = 1970 + (400 * n) div 146097
      in if day_from_year (y + 1) \<le> n then y + 1 else if n < day_from_year y then y - 1 else y)"

definition month_of_day :: "bool \<Rightarrow> nat \<Rightarrow> nat" where
  "month_of_day lp x = length (filter (\<lambda>m. month_start lp m \<le> x) [1..<13])"

definition civil :: "int \<Rightarrow> int \<times> nat \<times> nat" where
  "civil n =
     (let y = year_of_day n; x = nat (n - day_from_year y); m = month_of_day (leap y) x
      in (y, m, x - month_start (leap y) m + 1))"

definition real_date :: "int \<Rightarrow> nat \<Rightarrow> nat \<Rightarrow> bool" where
  "real_date y m d = (1 \<le> m \<and> m \<le> 12 \<and> 1 \<le> d \<and> d \<le> days_in_month (leap y) m)"

section \<open>Text of a date\<close>

definition digit_char :: "nat \<Rightarrow> char" where
  "digit_char n = of_code (48 + n mod 10)"

definition pad2 :: "nat \<Rightarrow> string" where
  "pad2 n = [digit_char (n div 10), digit_char n]"

definition pad4 :: "nat \<Rightarrow> string" where
  "pad4 n = [digit_char (n div 1000), digit_char (n div 100), digit_char (n div 10), digit_char n]"

definition date_text :: "nat \<Rightarrow> nat \<Rightarrow> nat \<Rightarrow> string" where
  "date_text y m d = pad4 y @ ''-'' @ pad2 m @ ''-'' @ pad2 d"

text \<open>The regular expression \<open>/^\d{4}-\d{2}-\d{2}$/\<close> and the three numbers.\<close>

fun date_fields :: "string \<Rightarrow> (nat \<times> nat \<times> nat) option" where
  "date_fields [a, b, c, d, p, e, f, q, g, h] =
     (if list_all is_digit [a, b, c, d, e, f, g, h] \<and> p = CHR ''-'' \<and> q = CHR ''-''
      then Some (parse_nat [a, b, c, d], parse_nat [e, f], parse_nat [g, h]) else None)"
| "date_fields _ = None"

definition date_parse :: "string \<Rightarrow> int option" where
  "date_parse s =
     (case date_fields s of
        Some (y, m, d) \<Rightarrow>
          if 1 \<le> m \<and> m \<le> 12 \<and> 1 \<le> d \<and> d \<le> 31 then Some (make_day (int y) m d) else None
      | None \<Rightarrow> None)"

text \<open>\<open>new Date(n).toISOString().slice(0, 10)\<close> for the years 0 to 9999.\<close>

definition iso_date :: "int \<Rightarrow> string" where
  "iso_date n = (case civil n of (y, m, d) \<Rightarrow> date_text (nat y) m d)"

definition date_ok :: "string \<Rightarrow> bool" where
  "date_ok s =
     (date_fields s \<noteq> None \<and> (case date_parse s of None \<Rightarrow> False | Some n \<Rightarrow> iso_date n = s))"

section \<open>Years\<close>

lemma div_bounds:
  fixes x :: int
  shows "4 * (x div 4) \<le> x \<and> x \<le> 4 * (x div 4) + 3"
    and "100 * (x div 100) \<le> x \<and> x \<le> 100 * (x div 100) + 99"
    and "400 * (x div 400) \<le> x \<and> x \<le> 400 * (x div 400) + 399"
    and "146097 * (x div 146097) \<le> x \<and> x \<le> 146097 * (x div 146097) + 146096"
  by presburger+

lemma day_from_year_bounds:
  "400 * day_from_year y \<le> 146097 * (y - 1970) + 593"
  "146097 * (y - 1970) - 610 \<le> 400 * day_from_year y"
  using div_bounds(1) [of "y - 1969"] div_bounds(2) [of "y - 1901"] div_bounds(3) [of "y - 1601"]
  by (simp_all add: day_from_year_def)

lemma div_step:
  fixes x c :: int
  assumes "0 < c"
  shows "(x + 1) div c = x div c + (if c dvd (x + 1) then 1 else 0)"
proof -
  have x: "x = c * (x div c) + x mod c" by simp
  have eq: "x + 1 = c * (x div c) + (x mod c + 1)" using x by linarith
  have r: "0 \<le> x mod c" "x mod c < c" using assms by simp_all
  show ?thesis
  proof (cases "x mod c + 1 = c")
    case True
    with eq have "x + 1 = c * (x div c) + c" by simp
    then show ?thesis using assms by simp
  next
    case False
    then have "(x + 1) div c = x div c" "(x + 1) mod c = x mod c + 1"
      using int_div_pos_eq [OF eq] int_mod_pos_eq [OF eq] r False by simp_all
    then show ?thesis using r by (simp add: dvd_eq_mod_eq_0)
  qed
qed

lemma leap_dvd: "leap y \<longleftrightarrow> 4 dvd y \<and> (\<not> 100 dvd y \<or> 400 dvd y)"
  by (simp add: leap_def dvd_eq_mod_eq_0)

lemma day_from_year_Suc:
  "day_from_year (y + 1) = day_from_year y + (if leap y then 366 else 365)"
proof -
  have dvd: "4 dvd (y - 1968) \<longleftrightarrow> 4 dvd y" "100 dvd (y - 1900) \<longleftrightarrow> 100 dvd y"
    "400 dvd (y - 1600) \<longleftrightarrow> 400 dvd y"
    by (rule dvd_diff_left_iff, simp)+
  have imp: "400 dvd y \<Longrightarrow> 100 dvd y" "100 dvd y \<Longrightarrow> 4 dvd y"
    using dvd_trans [of 100 400 y] dvd_trans [of 4 100 y] by simp_all
  have d4: "(y - 1968) div 4 = (y - 1969) div 4 + (if 4 dvd y then 1 else 0)"
    using div_step [of 4 "y - 1969"] dvd by simp
  have d100: "(y - 1900) div 100 = (y - 1901) div 100 + (if 100 dvd y then 1 else 0)"
    using div_step [of 100 "y - 1901"] dvd by simp
  have d400: "(y - 1600) div 400 = (y - 1601) div 400 + (if 400 dvd y then 1 else 0)"
    using div_step [of 400 "y - 1601"] dvd by simp
  have "day_from_year (y + 1) =
      365 * (y - 1970) + 365 + (y - 1968) div 4 - (y - 1900) div 100 + (y - 1600) div 400"
    by (simp add: day_from_year_def)
  also have "\<dots> = day_from_year y + 365 + (if 4 dvd y then 1 else 0)
      - (if 100 dvd y then 1 else 0) + (if 400 dvd y then 1 else 0)"
    unfolding d4 d100 d400 day_from_year_def by simp
  also have "\<dots> = day_from_year y + (if leap y then 366 else 365)"
  proof (cases "400 dvd y")
    case True
    then show ?thesis using imp by (simp add: leap_dvd)
  next
    case False
    then show ?thesis using imp(2) by (cases "100 dvd y") (simp_all add: leap_dvd)
  qed
  finally show ?thesis .
qed

lemma year_of_day_spec:
  "day_from_year (year_of_day n) \<le> n \<and> n < day_from_year (year_of_day n + 1)"
proof -
  let ?y = "1970 + (400 * n) div 146097"
  note q = div_bounds(4) [of "400 * n"]
  have lo: "day_from_year (?y - 1) \<le> n"
    using day_from_year_bounds(1) [of "?y - 1"] q by simp
  have hi: "n < day_from_year (?y + 1 + 1)"
    using day_from_year_bounds(2) [of "?y + 1 + 1"] q by simp
  show ?thesis
    unfolding year_of_day_def Let_def using lo hi by (simp split: if_splits)
qed

lemma day_from_year_mono: "y \<le> z \<Longrightarrow> day_from_year y \<le> day_from_year z"
proof (induction "nat (z - y)" arbitrary: z)
  case (Suc k)
  then have "day_from_year y \<le> day_from_year (z - 1)" by simp
  also have "\<dots> \<le> day_from_year z" using day_from_year_Suc [of "z - 1"] by (simp split: if_splits)
  finally show ?case .
qed simp

lemma year_of_day_unique:
  assumes "day_from_year y \<le> n" "n < day_from_year (y + 1)"
  shows "year_of_day n = y"
proof -
  have "\<not> year_of_day n < y" "\<not> y < year_of_day n"
    using year_of_day_spec [of n] assms day_from_year_mono [of "year_of_day n + 1" y]
      day_from_year_mono [of "y + 1" "year_of_day n"] by force+
  then show ?thesis by simp
qed

section \<open>Months\<close>

lemmas month_eval = month_start_def days_in_month_def upt_rec

lemma month_start_Suc: "1 \<le> m \<Longrightarrow> month_start lp (Suc m) = month_start lp m + days_in_month lp m"
  by (simp add: month_start_def)

lemma month_start_mono: "m \<le> n \<Longrightarrow> month_start lp m \<le> month_start lp n"
proof (rule lift_Suc_mono_le [of "month_start lp"])
  show "month_start lp k \<le> month_start lp (Suc k)" for k by (cases k) (simp_all add: month_start_def)
qed

lemma month_of_day_start:
  assumes "1 \<le> m" "m \<le> 12" "x < days_in_month lp m"
  shows "month_of_day lp (month_start lp m + x) = m"
proof -
  have iff: "month_start lp k \<le> month_start lp m + x \<longleftrightarrow> k \<le> m" for k
  proof (cases "k \<le> m")
    case True
    then show ?thesis using month_start_mono [of k m lp] by simp
  next
    case False
    then have "month_start lp (Suc m) \<le> month_start lp k" by (intro month_start_mono) simp
    with False assms show ?thesis by (simp add: month_start_Suc)
  qed
  have "filter (\<lambda>k. k \<le> m) [1..<13] = filter (\<lambda>k. k \<le> m) ([1..<Suc m] @ [Suc m..<13])"
    using upt_add_eq_append [of 1 "Suc m" "12 - m"] assms by simp
  also have "\<dots> = [1..<Suc m]" by (auto simp: filter_empty_conv intro: filter_True)
  finally show ?thesis by (simp add: month_of_day_def iff)
qed

lemma month_exists:
  "x < month_start lp (Suc n) \<Longrightarrow>
   \<exists>m. 1 \<le> m \<and> m \<le> n \<and> month_start lp m \<le> x \<and> x < month_start lp m + days_in_month lp m"
proof (induction n)
  case 0
  then show ?case by (simp add: month_start_def)
next
  case (Suc n)
  show ?case
  proof (cases "x < month_start lp (Suc n)")
    case True
    with Suc.IH show ?thesis by (metis le_SucI)
  next
    case False
    with Suc.prems show ?thesis by (intro exI [of _ "Suc n"]) (simp add: month_start_Suc)
  qed
qed

lemma month_of_day_spec:
  assumes "x < (if lp then 366 else 365)"
  shows "1 \<le> month_of_day lp x \<and> month_of_day lp x \<le> 12 \<and>
    month_start lp (month_of_day lp x) \<le> x \<and>
    x < month_start lp (month_of_day lp x) + days_in_month lp (month_of_day lp x)"
proof -
  have "month_start lp (Suc 12) = (if lp then 366 else 365)"
    by (cases lp) (simp_all add: month_eval)
  with assms obtain m where m: "1 \<le> m" "m \<le> 12" "month_start lp m \<le> x"
      "x < month_start lp m + days_in_month lp m"
    using month_exists [of x lp 12] by auto
  then have "month_of_day lp x = m"
    using month_of_day_start [of m "x - month_start lp m" lp] by simp
  with m show ?thesis by simp
qed

section \<open>Dates of the calendar\<close>

lemma civil_real:
  assumes "civil n = (y, m, d)"
  shows "real_date y m d"
proof -
  define x where "x = nat (n - day_from_year (year_of_day n))"
  from assms have eqs: "y = year_of_day n" "m = month_of_day (leap y) x" "d = x - month_start (leap y) m + 1"
    by (auto simp: civil_def Let_def x_def)
  have "x < (if leap y then 366 else 365)"
    using year_of_day_spec [of n] by (auto simp: day_from_year_Suc x_def eqs(1) nat_less_iff)
  from month_of_day_spec [OF this]
  have "1 \<le> m \<and> m \<le> 12 \<and> month_start (leap y) m \<le> x \<and> x < month_start (leap y) m + days_in_month (leap y) m"
    by (simp add: eqs(2))
  with eqs(3) show ?thesis by (auto simp: real_date_def)
qed

lemma month_start_le:
  assumes "1 \<le> m" "m \<le> 12"
  shows "month_start lp m + days_in_month lp m \<le> (if lp then 366 else 365)"
proof -
  have "month_start lp (Suc m) \<le> month_start lp 13" using assms by (intro month_start_mono) simp
  moreover have "month_start lp 13 = (if lp then 366 else 365)"
    by (cases lp) (simp_all add: month_eval)
  ultimately show ?thesis using assms by (simp add: month_start_Suc)
qed

lemma civil_make_day:
  assumes "real_date y m d"
  shows "civil (make_day y m d) = (y, m, d)"
proof -
  let ?n = "make_day y m d"
  from assms have m: "1 \<le> m" "m \<le> 12" and d: "1 \<le> d" "d \<le> days_in_month (leap y) m"
    by (auto simp: real_date_def)
  have "?n < day_from_year (y + 1)"
    using month_start_le [OF m, of "leap y"] d by (auto simp: make_day_def day_from_year_Suc split: if_splits)
  moreover have "day_from_year y \<le> ?n" using d by (simp add: make_day_def)
  ultimately have y: "year_of_day ?n = y" by (intro year_of_day_unique) auto
  have x: "nat (?n - day_from_year y) = month_start (leap y) m + (d - 1)"
    using d by (simp add: make_day_def)
  have "month_of_day (leap y) (month_start (leap y) m + (d - 1)) = m"
    using m d by (intro month_of_day_start) auto
  with d show ?thesis by (simp add: civil_def Let_def y x)
qed

section \<open>Text of dates\<close>

lemma digit_char_parse: "is_digit c \<Longrightarrow> digit_char (10 * n + digit_val c) = c"
proof -
  assume "is_digit c"
  then have "digit_val c < 10" "48 + digit_val c = code c"
    by (auto simp: is_digit_def digit_val_def)
  then show ?thesis by (simp add: digit_char_def)
qed

lemma digit_val_less: "is_digit c \<Longrightarrow> digit_val c < 10"
  by (auto simp: is_digit_def digit_val_def)

lemma digit_val_digit_char [simp]: "digit_val (digit_char n) = n mod 10"
  by (simp add: digit_val_def digit_char_def)

lemma is_digit_digit_char [simp]: "is_digit (digit_char n)"
  by (simp add: is_digit_def digit_char_def)

lemma parse2: "parse_nat [a, b] = 10 * digit_val a + digit_val b"
  by (simp add: parse_nat_def)

lemma parse4:
  "parse_nat [a, b, c, d] =
   10 * (10 * (10 * digit_val a + digit_val b) + digit_val c) + digit_val d"
  by (simp add: parse_nat_def)

lemma digit_char_digit_val: "is_digit c \<Longrightarrow> digit_char (digit_val c) = c"
  using digit_char_parse [of c 0] by simp

lemma pad2_parse: "is_digit a \<Longrightarrow> is_digit b \<Longrightarrow> pad2 (parse_nat [a, b]) = [a, b]"
  by (simp add: pad2_def parse2 digit_char_parse digit_char_digit_val digit_val_less div_add1_eq)

lemma pad4_parse:
  assumes "is_digit a" "is_digit b" "is_digit c" "is_digit d"
  shows "pad4 (parse_nat [a, b, c, d]) = [a, b, c, d]"
proof -
  let ?n3 = "10 * (10 * digit_val a + digit_val b) + digit_val c"
  have n: "parse_nat [a, b, c, d] = 10 * ?n3 + digit_val d" by (simp only: parse4)
  have "(10 * ?n3 + digit_val d) div 10 = ?n3" using digit_val_less [OF assms(4)] by simp
  moreover have "?n3 div 10 = 10 * digit_val a + digit_val b"
    using digit_val_less [OF assms(3)] by simp
  moreover have "(10 * digit_val a + digit_val b) div 10 = digit_val a"
    using digit_val_less [OF assms(2)] by simp
  ultimately have "(10 * ?n3 + digit_val d) div 100 = 10 * digit_val a + digit_val b"
    "(10 * ?n3 + digit_val d) div 1000 = digit_val a"
    "(10 * ?n3 + digit_val d) div 10 = ?n3"
    by (simp_all flip: div_mult2_eq)
  then show ?thesis
    unfolding n pad4_def using assms by (simp only: digit_char_parse digit_char_digit_val)
qed

lemma date_fields_text:
  assumes "date_fields s = Some (y, m, d)"
  shows "s = date_text y m d \<and> y < 10000 \<and> m < 100 \<and> d < 100"
proof -
  obtain a b c e f g h i where s: "s = [a, b, c, e, CHR ''-'', f, g, CHR ''-'', h, i]"
    and dig: "list_all is_digit [a, b, c, e, f, g, h, i]"
    and n: "y = parse_nat [a, b, c, e]" "m = parse_nat [f, g]" "d = parse_nat [h, i]"
    using assms by (cases s rule: date_fields.cases) (auto split: if_splits)
  have "list_all (\<lambda>x. digit_val x < 10) [a, b, c, e, f, g, h, i]"
    using dig by (auto intro: digit_val_less)
  then have "y < 10000 \<and> m < 100 \<and> d < 100"
    unfolding n parse2 parse4 by simp
  moreover have "s = date_text y m d"
    using dig by (simp add: s n date_text_def pad2_parse pad4_parse)
  ultimately show ?thesis by simp
qed

lemma parse_pad2: "m < 100 \<Longrightarrow> parse_nat (pad2 m) = m"
  by (simp add: pad2_def parse2 div_less_iff_less_mult)

lemma parse_pad4:
  assumes "y < 10000"
  shows "parse_nat (pad4 y) = y"
proof -
  have "y div 1000 < 10" using assms by (simp add: div_less_iff_less_mult)
  moreover have "y div 1000 = y div 100 div 10" "y div 100 = y div 10 div 10"
    by (simp_all flip: div_mult2_eq)
  ultimately show ?thesis by (simp add: pad4_def parse4)
qed

lemma date_fields_date_text:
  "y < 10000 \<Longrightarrow> m < 100 \<Longrightarrow> d < 100 \<Longrightarrow> date_fields (date_text y m d) = Some (y, m, d)"
  using parse_pad2 [of m] parse_pad2 [of d] parse_pad4 [of y]
  by (simp add: date_text_def pad2_def pad4_def)

lemma days_in_month_31: "days_in_month lp m \<le> 31"
  by (simp add: days_in_month_def)

lemma make_day_same_year:
  assumes "1 \<le> m" "m \<le> 12" "1 \<le> d" "d \<le> 31"
  shows "year_of_day (make_day y m d) = y"
proof -
  have "month_start (leap y) m \<le> month_start (leap y) 12" using assms by (intro month_start_mono)
  moreover have "month_start (leap y) 12 + days_in_month (leap y) 12 \<le> (if leap y then 366 else 365)"
    by (rule month_start_le) simp_all
  moreover have "days_in_month (leap y) 12 = 31" by (simp add: days_in_month_def)
  ultimately have "month_start (leap y) m + 31 \<le> (if leap y then 366 else 365)" by linarith
  with assms show ?thesis
    by (intro year_of_day_unique) (auto simp: make_day_def day_from_year_Suc split: if_splits)
qed

lemma iso_date_eq_imp_real:
  assumes "y < 10000" "1 \<le> m" "m \<le> 12" "1 \<le> d" "d \<le> 31"
    and "iso_date (make_day (int y) m d) = date_text y m d"
  shows "real_date (int y) m d"
proof -
  obtain y' m' d' where c: "civil (make_day (int y) m d) = (y', m', d')" by (metis prod_cases3)
  then have y': "y' = int y" using make_day_same_year [OF assms(2-5)] by (simp add: civil_def Let_def)
  from c have r: "real_date y' m' d'" by (rule civil_real)
  then have "m' < 100" "d' < 100" using days_in_month_31 [of "leap y'" m'] by (auto simp: real_date_def)
  then have "date_fields (date_text y m' d') = Some (y, m', d')"
    using assms by (simp add: date_fields_date_text)
  moreover have "date_fields (date_text y m d) = Some (y, m, d)"
    using assms by (simp add: date_fields_date_text)
  moreover have "date_text y m' d' = date_text y m d"
    using assms(6) c y' by (simp add: iso_date_def)
  ultimately have "(y, m', d') = (y, m, d)" by (metis option.inject)
  then show ?thesis using r y' by simp
qed

lemma date_ok_text:
  assumes "y < 10000" "real_date (int y) m d"
  shows "date_ok (date_text y m d)"
proof -
  have b: "1 \<le> m" "m \<le> 12" "1 \<le> d" "d \<le> 31"
    using assms(2) days_in_month_31 [of "leap (int y)" m] by (auto simp: real_date_def)
  then have "date_fields (date_text y m d) = Some (y, m, d)"
    using assms(1) by (simp add: date_fields_date_text)
  then show ?thesis
    using b civil_make_day [OF assms(2)] by (simp add: date_ok_def date_parse_def iso_date_def)
qed

lemma date_ok_fields:
  assumes "date_ok s"
  obtains y m d where "y < 10000" "real_date (int y) m d" "s = date_text y m d"
proof -
  obtain y m d where f: "date_fields s = Some (y, m, d)" and b: "1 \<le> m" "m \<le> 12" "1 \<le> d" "d \<le> 31"
    and i: "iso_date (make_day (int y) m d) = s"
    using assms by (auto simp: date_ok_def date_parse_def split: option.splits if_splits)
  have t: "s = date_text y m d" "y < 10000" using date_fields_text [OF f] by simp_all
  then have "real_date (int y) m d" using iso_date_eq_imp_real b i by simp
  then show ?thesis using that t by blast
qed

section \<open>Properties\<close>

text \<open>
  C21: the date test of \<open>validateMetadata\<close> (regular expression, \<open>Date.parse\<close>, \<open>toISOString\<close> round
  trip) accepts exactly the texts \<open>YYYY-MM-DD\<close> of days that exist in the Gregorian calendar,
  leap years included.
\<close>
theorem date_ok_calendar:
  "date_ok s \<longleftrightarrow> (\<exists>y m d. y < 10000 \<and> real_date (int y) m d \<and> s = date_text y m d)"
  using date_ok_text by (blast elim: date_ok_fields)

end
