(* ===== verification/DocPage.thy ===== *)
theory DocPage
  imports Markdown FileSystem CivilDate
begin

text \<open>
  Pages of the documentation: reading one (\<open>readPage\<close>), the front matter regular expression,
  the validation of its metadata (\<open>validateMetadata\<close>) and of the references between pages
  (\<open>validateReferences\<close>). The packages the assembler imports are the fields of \<open>packages\<close>.
\<close>

section \<open>Packages and pages\<close>

text \<open>
  \<open>js-yaml\<close> (\<open>load\<close> may throw a message; \<open>dump\<close> takes its options), \<open>remark\<close>
  (\<open>markdown.parse\<close>, \<open>markdown.stringify\<close>), the visiting order of \<open>unist-util-visit\<close>, \<open>glob\<close>
  (\<open>globSync('**/*.md', {cwd, nodir: true})\<close> in a file system) and the engine's formatting of
  fractional and very large numbers. Values are trees, so a YAML alias that makes a value
  contain itself is not represented; \<open>dump\<close> is total on the values that are.
\<close>

record packages =
  yaml_load :: "string \<Rightarrow> string + jsval"
  yaml_dump :: "jsval \<Rightarrow> (string \<times> jsval) list \<Rightarrow> string"
  md_parse :: "string \<Rightarrow> mdnode"
  md_stringify :: "mdnode \<Rightarrow> string"
  visit_order :: "mdnode \<Rightarrow> mdpos list"
  glob_md :: "fs \<Rightarrow> segs \<Rightarrow> string list"
  number_format :: "jsnum \<Rightarrow> string"

record page =
  p_source :: string
  p_target :: string
  p_collection :: string
  p_metadata :: jsval
  p_tree :: mdnode

abbreviation meta :: "page \<Rightarrow> string \<Rightarrow> jsval" where
  "meta pg k \<equiv> prop_of (p_metadata pg) k"

record collection =
  c_name :: string
  c_label :: string
  c_description :: string

definition collections :: "collection list" where
  "collections =
     [\<lparr>c_name = ''handbook'', c_label = ''Handbook'',
       c_description = ''The current application and how to work with it.''\<rparr>,
      \<lparr>c_name = ''requirements'', c_label = ''Requirements'',
       c_description = ''Required outcomes, behavior, and verification.''\<rparr>,
      \<lparr>c_name = ''decisions'', c_label = ''Decisions'',
       c_description = ''Significant choices and their reasoning.''\<rparr>,
      \<lparr>c_name = ''templates'', c_label = ''Authoring templates'',
       c_description = ''Starting points for authors; these are not project records.''\<rparr>]"

definition statuses :: "string \<Rightarrow> string list option" where
  "statuses c =
     (if c = ''requirements'' then Some [''draft'', ''accepted'', ''retired'']
      else if c = ''decisions'' then Some [''proposed'', ''accepted'', ''rejected'', ''superseded'']
      else None)"

section \<open>Front matter\<close>

text \<open>
  \<open>/^---\r?\n([\s\S]*?)\r?\n---(?:\r?\n|$)/\<close>. \<open>strip_eol\<close> matches \<open>\r?\n\<close>, \<open>close_fence\<close> the part
  after the group; the lazy group is the shortest text before a closing fence. The result
  is the group and the text after the match.
\<close>

definition strip_eol :: "string \<Rightarrow> string option" where
  "strip_eol s =
     (case s of
        [] \<Rightarrow> None
      | c # r \<Rightarrow>
          if c = CHR 0x0A then Some r
          else if c = CHR 0x0D then (case r of [] \<Rightarrow> None | d # r' \<Rightarrow> if d = CHR 0x0A then Some r' else None)
          else None)"

definition close_fence :: "string \<Rightarrow> string option" where
  "close_fence s =
     (case strip_eol s of
        None \<Rightarrow> None
      | Some r \<Rightarrow>
          if starts_with r ''---'' then
            (case strip_eol (drop 3 r) of
               Some r' \<Rightarrow> Some r'
             | None \<Rightarrow> if drop 3 r = [] then Some [] else None)
          else None)"

fun find_close :: "string \<Rightarrow> (string \<times> string) option" where
  "find_close [] = None"
| "find_close (c # s) =
     (case close_fence (c # s) of
        Some r \<Rightarrow> Some ([], r)
      | None \<Rightarrow> map_option (\<lambda>(g, r). (c # g, r)) (find_close s))"

definition front_matter :: "string \<Rightarrow> (string \<times> string) option" where
  "front_matter s =
     (if starts_with s ''---'' then
        (case strip_eol (drop 3 s) of None \<Rightarrow> None | Some r \<Rightarrow> find_close r)
      else None)"

definition readPage ::
    "packages \<Rightarrow> string \<Rightarrow> fs \<Rightarrow> string \<Rightarrow> string \<Rightarrow> string \<Rightarrow> string \<Rightarrow> doc_error + page" where
  "readPage pkg cwd fs root source target collection =
     bindE (read_file fs (resolve_segs cwd [path_join [root, source]])) (\<lambda>text.
     let frontMatter = front_matter text in
     bindE (case frontMatter of
              Some (g, r) \<Rightarrow> (case yaml_load pkg g of Inl m \<Rightarrow> Inl (YamlError m) | Inr v \<Rightarrow> Inr v)
            | None \<Rightarrow> Inr (JObj [])) (\<lambda>metadata.
     bindE (throw_if (\<not> is_mapping metadata) (FrontMatterNotMapping source)) (\<lambda>_.
     let body = (case frontMatter of Some (g, r) \<Rightarrow> r | None \<Rightarrow> text) in
     Inr \<lparr>p_source = source, p_target = target, p_collection = collection,
          p_metadata = metadata, p_tree = md_parse pkg body\<rparr>)))"

section \<open>Metadata\<close>

type_synonym ids = "(string, page) jsmap"

text \<open>\<open>/^[A-Za-z][A-Za-z0-9-]*$/\<close>\<close>

fun id_ok :: "string \<Rightarrow> bool" where
  "id_ok [] = False"
| "id_ok (c # s) = (is_alpha c \<and> list_all (\<lambda>d. is_alnum d \<or> d = CHR ''-'') s)"

text \<open>\<open>new RegExp(`^${prefix}-[0-9]{3,}$`)\<close>\<close>

definition record_id_ok :: "string \<Rightarrow> string \<Rightarrow> bool" where
  "record_id_ok pre i =
     (starts_with i (pre @ ''-'') \<and>
      (let n = drop (length pre + 1) i in 3 \<le> length n \<and> list_all is_digit n))"

text \<open>\<open>!Number.isSafeInteger(v) || v < 1\<close>\<close>

definition bad_position :: "jsval \<Rightarrow> bool" where
  "bad_position v =
     (\<not> is_safe_integer v \<or>
      (case v of JNum (NumInt i) \<Rightarrow> i < 1 | JNum NumNegZero \<Rightarrow> True | _ \<Rightarrow> False))"

text \<open>\<open>v !== undefined && (!Array.isArray(v) || v.some(id => typeof id !== 'string'))\<close>\<close>

definition bad_related :: "jsval \<Rightarrow> bool" where
  "bad_related v =
     (v \<noteq> JUndef \<and>
      (case v of JArr xs \<Rightarrow> list_ex (\<lambda>x. as_string x = None) xs | _ \<Rightarrow> True))"

definition record_prefix :: "string \<Rightarrow> string" where
  "record_prefix c = (if c = ''requirements'' then ''REQ'' else ''ADR'')"

definition bad_date :: "jsval \<Rightarrow> bool" where
  "bad_date v = (case as_string v of None \<Rightarrow> True | Some s \<Rightarrow> \<not> date_ok s)"

definition bad_superseded_by :: "jsval \<Rightarrow> jsval \<Rightarrow> bool" where
  "bad_superseded_by status sb =
     (if status = JStr ''superseded'' then \<not> truthy sb \<or> as_string sb = None else sb \<noteq> JUndef)"

text \<open>The part of \<open>validateMetadata\<close> after \<open>if (!statuses[collection]) return;\<close>.\<close>

definition validateRecord :: "page \<Rightarrow> string \<Rightarrow> string list \<Rightarrow> doc_error + unit" where
  "validateRecord pg i sts =
     (let source = p_source pg; coll = p_collection pg in
      bindE (throw_if (\<not> record_id_ok (record_prefix coll) i)
               (BadRecordId source coll (record_prefix coll))) (\<lambda>_.
      bindE (throw_if (\<not> list_ex (\<lambda>s. meta pg ''status'' = JStr s) sts) (BadStatus source sts)) (\<lambda>_.
      if coll = ''decisions'' then
        bindE (throw_if (bad_date (meta pg ''date'')) (BadDate source)) (\<lambda>_.
        throw_if (bad_superseded_by (meta pg ''status'') (meta pg ''superseded_by''))
          (BadSupersededBy source))
      else Inr ())))"

definition validateMetadata :: "ids \<Rightarrow> page \<Rightarrow> doc_error + ids" where
  "validateMetadata ids pg =
     (let source = p_source pg; coll = p_collection pg in
      bindE (case as_string (meta pg ''id'') of
               None \<Rightarrow> Inl (BadId source)
             | Some i \<Rightarrow> if id_ok i then Inr i else Inl (BadId source)) (\<lambda>i.
      bindE (throw_if (case as_string (meta pg ''title'') of None \<Rightarrow> True | Some t \<Rightarrow> trim t = [])
               (TitleRequired source)) (\<lambda>_.
      bindE (throw_if (meta pg ''collection'' \<noteq> JStr coll) (WrongCollection source coll)) (\<lambda>_.
      bindE (throw_if (coll = ''handbook'' \<and> bad_position (meta pg ''sidebar_position''))
               (BadSidebarPosition source)) (\<lambda>_.
      bindE (case map_get ids i of
               Some other \<Rightarrow> Inl (DuplicateId source i (p_source other))
             | None \<Rightarrow> Inr (map_set ids i pg)) (\<lambda>ids'.
      bindE (throw_if (bad_related (meta pg ''related'')) (BadRelated source)) (\<lambda>_.
      case statuses coll of
        None \<Rightarrow> Inr ids'
      | Some sts \<Rightarrow> bindE (validateRecord pg i sts) (\<lambda>_. Inr ids'))))))))"

section \<open>References between pages\<close>

definition related_ids :: "page \<Rightarrow> string list" where
  "related_ids pg =
     (case meta pg ''related'' of JArr xs \<Rightarrow> List.map_filter as_string xs | _ \<Rightarrow> [])"

definition lookup_id :: "ids \<Rightarrow> jsval \<Rightarrow> page option" where
  "lookup_id ids v = (case as_string v of None \<Rightarrow> None | Some i \<Rightarrow> map_get ids i)"

definition replacement_ok :: "page \<Rightarrow> bool" where
  "replacement_ok r =
     (p_collection r = ''decisions'' \<and>
      (meta r ''status'' = JStr ''accepted'' \<or> meta r ''status'' = JStr ''superseded''))"

definition bad_replacement :: "packages \<Rightarrow> page \<Rightarrow> jsval \<Rightarrow> doc_error + 'a" where
  "bad_replacement pkg pg v =
     bindE (to_string (number_format pkg) v) (\<lambda>s. Inl (BadReplacement (p_source pg) s))"

text \<open>
  The \<open>while\<close> loop of \<open>validateReferences\<close>: each round either throws or records one more of
  the finitely many known identifiers as seen.
\<close>

definition unseen :: "ids \<Rightarrow> string list \<Rightarrow> nat" where
  "unseen ids seen = length (filter (\<lambda>k. k \<notin> set seen) (map_keys ids))"

lemma unseen_less:
  assumes "map_get ids i = Some r" "i \<notin> set seen"
  shows "unseen ids (i # seen) < unseen ids seen"
proof -
  have "i \<in> set (map_keys ids)" using assms(1) by (simp add: map_keys_get)
  then have "i \<in> set (filter (\<lambda>k. k \<notin> set seen) (map_keys ids))" using assms(2) by simp
  then have "length (filter (\<lambda>k. k \<noteq> i) (filter (\<lambda>k. k \<notin> set seen) (map_keys ids)))
      < length (filter (\<lambda>k. k \<notin> set seen) (map_keys ids))"
    by (rule length_filter_less) simp
  then show ?thesis by (simp add: unseen_def conj_commute)
qed

function walk_replacements ::
    "packages \<Rightarrow> ids \<Rightarrow> page \<Rightarrow> page \<Rightarrow> string list \<Rightarrow> doc_error + unit" where
  "walk_replacements pkg ids pg current seen =
     (let sb = meta current ''superseded_by'' in
      if \<not> truthy sb then Inr ()
      else case as_string sb of
        None \<Rightarrow> bad_replacement pkg current sb
      | Some i \<Rightarrow>
          (case map_get ids i of
             None \<Rightarrow> bad_replacement pkg current sb
           | Some r \<Rightarrow>
               if \<not> replacement_ok r then bad_replacement pkg current sb
               else if i \<in> set seen then Inl (ReplacementCycle (p_source pg) i)
               else walk_replacements pkg ids pg r (i # seen)))"
  by pat_completeness auto
termination
  by (relation "measure (\<lambda>(pkg, ids, pg, current, seen). unseen ids seen)")
    (auto simp: unseen_less)

declare walk_replacements.simps [simp del]

definition validatePageReferences :: "packages \<Rightarrow> ids \<Rightarrow> page \<Rightarrow> doc_error + unit" where
  "validatePageReferences pkg ids pg =
     bindE (foldE (\<lambda>_ i. throw_if (\<not> map_has ids i) (UnknownRelated (p_source pg) i)) () (related_ids pg))
       (\<lambda>_. walk_replacements pkg ids pg pg (List.map_filter as_string [meta pg ''id'']))"

definition validateReferences :: "packages \<Rightarrow> page list \<Rightarrow> ids \<Rightarrow> doc_error + unit" where
  "validateReferences pkg pages ids = foldE (\<lambda>_ pg. validatePageReferences pkg ids pg) () pages"

section \<open>What a valid page is\<close>

definition page_id :: "page \<Rightarrow> string" where
  "page_id pg = (case as_string (meta pg ''id'') of None \<Rightarrow> [] | Some i \<Rightarrow> i)"

definition date_spec :: "jsval \<Rightarrow> bool" where
  "date_spec v \<longleftrightarrow> (\<exists>y m d. y < 10000 \<and> real_date (int y) m d \<and> v = JStr (date_text y m d))"

definition record_spec :: "page \<Rightarrow> string list \<Rightarrow> bool" where
  "record_spec pg sts \<longleftrightarrow>
     record_id_ok (record_prefix (p_collection pg)) (page_id pg) \<and>
     (\<exists>s\<in>set sts. meta pg ''status'' = JStr s) \<and>
     (p_collection pg = ''decisions'' \<longrightarrow>
        date_spec (meta pg ''date'') \<and>
        (if meta pg ''status'' = JStr ''superseded''
         then \<exists>r. r \<noteq> [] \<and> meta pg ''superseded_by'' = JStr r
         else meta pg ''superseded_by'' = JUndef))"

text \<open>
  The rules \<open>validateMetadata\<close> enforces. Three rules of \<open>docs/handbook/documentation.md\<close> are not
  among them: lowercase identifiers of handbook pages, the prefix \<open>template-\<close> of template
  identifiers, and \<open>superseded_by\<close> only on superseded decisions (it is checked on decisions only).
\<close>

definition page_spec :: "page \<Rightarrow> bool" where
  "page_spec pg \<longleftrightarrow>
     meta pg ''id'' = JStr (page_id pg) \<and> id_ok (page_id pg) \<and>
     (\<exists>t. meta pg ''title'' = JStr t \<and> trim t \<noteq> []) \<and>
     meta pg ''collection'' = JStr (p_collection pg) \<and>
     (p_collection pg = ''handbook'' \<longrightarrow>
        (\<exists>n. meta pg ''sidebar_position'' = JNum (NumInt n) \<and> 1 \<le> n \<and> n \<le> max_safe_integer)) \<and>
     (meta pg ''related'' = JUndef \<or> (\<exists>xs. meta pg ''related'' = JArr (map JStr xs))) \<and>
     (\<forall>sts. statuses (p_collection pg) = Some sts \<longrightarrow> record_spec pg sts)"

lemma bad_position_iff:
  "\<not> bad_position v \<longleftrightarrow> (\<exists>n. v = JNum (NumInt n) \<and> 1 \<le> n \<and> n \<le> max_safe_integer)"
  by (auto simp: bad_position_def is_safe_integer_def split: jsval.splits jsnum.splits)

lemma as_string_None: "as_string v = None \<longleftrightarrow> (\<forall>s. v \<noteq> JStr s)"
  by (cases v) (auto simp: as_string_def)

lemma all_strings: "list_ex (\<lambda>x. as_string x = None) xs \<longleftrightarrow> (\<forall>ys. xs \<noteq> map JStr ys)"
proof (induction xs)
  case (Cons x xs)
  show ?case
  proof (cases "as_string x")
    case None
    then show ?thesis by (auto simp: as_string_None)
  next
    case (Some s)
    then have "x = JStr s" by simp
    with Cons show ?thesis by (auto simp: Cons_eq_map_conv)
  qed
qed simp

lemma bad_related_iff: "\<not> bad_related v \<longleftrightarrow> v = JUndef \<or> (\<exists>xs. v = JArr (map JStr xs))"
proof (cases v)
  case (JArr xs)
  then show ?thesis using all_strings [of xs] by (auto simp: bad_related_def)
qed (simp_all add: bad_related_def)

lemma date_ok_iff: "date_ok s \<longleftrightarrow> (\<exists>y m d. y < 10000 \<and> real_date (int y) m d \<and> s = date_text y m d)"
  using date_ok_text by (blast elim: date_ok_fields)

lemma bad_date_iff: "\<not> bad_date v \<longleftrightarrow> date_spec v"
  by (cases v) (auto simp: bad_date_def date_spec_def date_ok_iff as_string_def)

lemma bad_superseded_by_iff:
  "\<not> bad_superseded_by st sb \<longleftrightarrow>
   (if st = JStr ''superseded'' then \<exists>r. r \<noteq> [] \<and> sb = JStr r else sb = JUndef)"
  by (cases sb) (auto simp: bad_superseded_by_def as_string_def)

lemma validateRecord_iff:
  assumes "page_id pg = i"
  shows "validateRecord pg i sts = Inr u \<longleftrightarrow> record_spec pg sts"
  using assms
  by (auto simp: validateRecord_def record_spec_def Let_def seqE list_ex_iff
      bad_date_iff bad_superseded_by_iff)

lemma map_filter_JStr [simp]: "List.map_filter as_string (map JStr xs) = xs"
  by (induction xs) (auto simp: map_filter_simps)

lemma related_ids_JArr: "meta pg ''related'' = JArr (map JStr xs) \<Longrightarrow> related_ids pg = xs"
  by (simp add: related_ids_def)

text \<open>\<open>validateMetadata\<close> accepts exactly the pages of the specification with a new identifier.\<close>

lemma validateMetadata_iff:
  "validateMetadata ids pg = Inr ids' \<longleftrightarrow>
   page_spec pg \<and> \<not> map_has ids (page_id pg) \<and> ids' = map_set ids (page_id pg) pg"
proof (cases "as_string (meta pg ''id'')")
  case None
  then show ?thesis
    by (auto simp: validateMetadata_def Let_def page_spec_def)
next
  case (Some i)
  then have i: "page_id pg = i" by (simp add: page_id_def)
  have "(case as_string v of None \<Rightarrow> True | Some t \<Rightarrow> trim t = []) \<longleftrightarrow> \<not> (\<exists>t. v = JStr t \<and> trim t \<noteq> [])" for v
    by (auto simp: as_string_None split: option.splits)
  with Some i show ?thesis
    by (auto simp: validateMetadata_def Let_def page_spec_def seqE bad_position_iff bad_related_iff
        map_has_def validateRecord_iff [OF i] split: option.splits if_splits)
qed

section \<open>Chains of replacements\<close>

text \<open>
  \<open>replacement_chain ids p n r\<close>: following \<open>superseded_by\<close> from \<open>p\<close> ends, after \<open>n\<close>
  replacements that are all accepted or superseded decisions, at the page \<open>r\<close>, which names
  no replacement.
\<close>

inductive replacement_chain :: "ids \<Rightarrow> page \<Rightarrow> nat \<Rightarrow> page \<Rightarrow> bool" for ids where
  chain_end: "\<not> truthy (meta p ''superseded_by'') \<Longrightarrow> replacement_chain ids p 0 p"
| chain_step: "meta p ''superseded_by'' = JStr i \<Longrightarrow> i \<noteq> [] \<Longrightarrow> map_get ids i = Some q \<Longrightarrow>
    replacement_ok q \<Longrightarrow> replacement_chain ids q n r \<Longrightarrow> replacement_chain ids p (Suc n) r"

inductive_cases chain_0E: "replacement_chain ids p 0 r"
inductive_cases chain_SucE: "replacement_chain ids p (Suc n) r"
inductive_cases chainE: "replacement_chain ids p n r"

lemma chain_deterministic:
  "replacement_chain ids p n r \<Longrightarrow> replacement_chain ids p m s \<Longrightarrow> n = m \<and> r = s"
proof (induction arbitrary: m rule: replacement_chain.induct)
  case (chain_end p)
  from chain_end.prems chain_end.hyps show ?case by (cases rule: replacement_chain.cases) auto
next
  case (chain_step p i q n r)
  from chain_step.prems chain_step.hyps chain_step.IH show ?case
    by (cases rule: replacement_chain.cases) auto
qed

text \<open>The loop succeeds only along a chain that ends.\<close>

lemma walk_sound:
  "walk_replacements pkg ids pg current seen = Inr u \<Longrightarrow> \<exists>n r. replacement_chain ids current n r"
proof (induction pkg ids pg current seen rule: walk_replacements.induct)
  case (1 pkg ids pg current seen)
  show ?case
  proof (cases "truthy (meta current ''superseded_by'')")
    case False
    then show ?thesis by (blast intro: chain_end)
  next
    case True
    with "1.prems" obtain i q where i: "meta current ''superseded_by'' = JStr i" "map_get ids i = Some q"
      "replacement_ok q" and rec: "i \<notin> set seen" "walk_replacements pkg ids pg q (i # seen) = Inr u"
      by (auto simp: walk_replacements.simps [of pkg ids pg current] bad_replacement_def seqE Let_def
          split: option.splits if_splits)
    from True i(1) have "i \<noteq> []" by auto
    moreover obtain n r where "replacement_chain ids q n r"
      using "1.IH" [OF refl, of i q] True i rec by auto
    ultimately show ?thesis using i by (blast intro: chain_step)
  qed
qed

text \<open>
  And it succeeds along every such chain: what has been seen lies strictly earlier, so no
  identifier can come back.
\<close>

lemma walk_complete:
  assumes "replacement_chain ids current n r"
    and "\<forall>i\<in>set seen. \<exists>q m s. map_get ids i = Some q \<and> replacement_chain ids q m s \<and> n \<le> m"
  shows "walk_replacements pkg ids pg current seen = Inr ()"
  using assms
proof (induction arbitrary: seen rule: replacement_chain.induct)
  case (chain_end p)
  then show ?case by (simp add: walk_replacements.simps)
next
  case (chain_step p i q n r)
  have "i \<notin> set seen"
  proof
    assume "i \<in> set seen"
    then obtain m s where "replacement_chain ids q m s" "Suc n \<le> m"
      using chain_step.prems chain_step.hyps(3) by fastforce
    with chain_step.hyps(5) show False by (auto dest: chain_deterministic)
  qed
  moreover have "walk_replacements pkg ids pg q (i # seen) = Inr ()"
    using chain_step.prems chain_step.hyps by (intro chain_step.IH) fastforce
  ultimately show ?case
    using chain_step.hyps by (simp add: walk_replacements.simps [of pkg ids pg p])
qed

text \<open>The identifiers of a validated set of pages name those pages.\<close>

definition ids_of :: "ids \<Rightarrow> page list \<Rightarrow> bool" where
  "ids_of ids pages \<longleftrightarrow>
     (\<forall>pg\<in>set pages. page_spec pg \<and> map_get ids (page_id pg) = Some pg) \<and>
     (\<forall>i q. map_get ids i = Some q \<longrightarrow> q \<in> set pages \<and> page_id q = i)"

lemma foldE_unit: "foldE (\<lambda>_ x. f x) u xs = Inr v \<longleftrightarrow> (\<forall>x\<in>set xs. f x = Inr ())"
  by (induction xs arbitrary: u) (auto simp: seqE)

lemma page_spec_id: "page_spec pg \<Longrightarrow> meta pg ''id'' = JStr (page_id pg)"
  by (simp add: page_spec_def)

lemma validatePageReferences_iff:
  assumes "page_spec pg" "map_get ids (page_id pg) = Some pg"
  shows "validatePageReferences pkg ids pg = Inr () \<longleftrightarrow>
    (\<forall>i\<in>set (related_ids pg). map_has ids i) \<and> (\<exists>n r. replacement_chain ids pg n r)"
proof -
  have "walk_replacements pkg ids pg pg [page_id pg] = Inr () \<longleftrightarrow> (\<exists>n r. replacement_chain ids pg n r)"
  proof
    assume "\<exists>n r. replacement_chain ids pg n r"
    then obtain n r where ch: "replacement_chain ids pg n r" by blast
    have "\<forall>i\<in>set [page_id pg]. \<exists>q m s. map_get ids i = Some q \<and> replacement_chain ids q m s \<and> n \<le> m"
      using assms(2) ch by (metis empty_iff empty_set order_refl set_ConsD)
    with ch show "walk_replacements pkg ids pg pg [page_id pg] = Inr ()"
      by (rule walk_complete)
  qed (rule walk_sound)
  then show ?thesis
    using page_spec_id [OF assms(1)]
    by (simp add: validatePageReferences_def seqE foldE_unit map_filter_simps)
qed

lemma validateReferences_iff:
  assumes "ids_of ids pages"
  shows "validateReferences pkg pages ids = Inr () \<longleftrightarrow>
    (\<forall>pg\<in>set pages. (\<forall>i\<in>set (related_ids pg). map_has ids i) \<and> (\<exists>n r. replacement_chain ids pg n r))"
  using assms by (auto simp: validateReferences_def foldE_unit validatePageReferences_iff ids_of_def)

lemma chain_last:
  "replacement_chain ids p n r \<Longrightarrow>
   \<not> truthy (meta r ''superseded_by'') \<and> (n > 0 \<longrightarrow> replacement_ok r \<and> (\<exists>i. map_get ids i = Some r))"
  by (induction rule: replacement_chain.induct) (auto elim: replacement_chain.cases)

section \<open>Reading back a front matter block\<close>

text \<open>A block without carriage returns in which no line but the first is a fence.\<close>

definition clean_block :: "string \<Rightarrow> bool" where
  "clean_block g \<longleftrightarrow> CHR 0x0D \<notin> set g \<and> ''---'' \<notin> set (tl (split_on newline g))"

lemma close_fence_other: "c \<noteq> newline \<Longrightarrow> c \<noteq> CHR 0x0D \<Longrightarrow> close_fence (c # s) = None"
  by (simp add: close_fence_def strip_eol_def)

lemma split_on_first: "hd (split_on c s) = takeWhile (\<lambda>x. x \<noteq> c) s"
proof (induction s)
  case (Cons x s)
  then show ?case by (cases "split_on c s") auto
qed simp

lemma first_line_fence:
  assumes "hd (split_on newline g) \<noteq> ''---''" "CHR 0x0D \<notin> set g" "starts_with (g @ newline # r) ''---''"
  shows "\<exists>c s. drop 3 (g @ newline # r) = c # s \<and> c \<noteq> newline \<and> c \<noteq> CHR 0x0D"
proof -
  obtain a b d g' where g: "g = a # b # d # g'"
    using assms(3) by (cases g; cases "tl g"; cases "tl (tl g)") (auto simp: starts_with_def)
  with assms(3) have abd: "a = CHR ''-''" "b = CHR ''-''" "d = CHR ''-''" by (simp_all add: starts_with_def)
  show ?thesis
  proof (cases g')
    case Nil
    with assms(1) g abd show ?thesis by simp
  next
    case (Cons c s)
    with assms(1,2) g abd show ?thesis by (auto simp: split_on_first)
  qed
qed

lemma close_fence_line:
  assumes "hd (split_on newline g) \<noteq> ''---''" "CHR 0x0D \<notin> set g"
  shows "close_fence (newline # g @ newline # r) = None"
proof (cases "starts_with (g @ newline # r) ''---''")
  case True
  then obtain c s where "drop 3 (g @ newline # r) = c # s" "c \<noteq> newline" "c \<noteq> CHR 0x0D"
    using first_line_fence [OF assms] by blast
  with True show ?thesis by (simp add: close_fence_def strip_eol_def)
qed (simp add: close_fence_def strip_eol_def)

lemma find_close_block:
  "clean_block g \<Longrightarrow> find_close (g @ newline # ''---'' @ newline # r) = Some (g, r)"
proof (induction g)
  case Nil
  then show ?case by (simp add: close_fence_def strip_eol_def starts_with_def)
next
  case (Cons c g)
  obtain p ps where ps: "split_on newline g = p # ps" by (cases "split_on newline g") auto
  have clean: "clean_block g" using Cons.prems ps by (auto simp: clean_block_def split: if_splits)
  have "close_fence ((c # g) @ newline # ''---'' @ newline # r) = None"
  proof (cases "c = newline")
    case True
    with Cons.prems ps have "hd (split_on newline g) \<noteq> ''---''" "CHR 0x0D \<notin> set g"
      by (auto simp: clean_block_def)
    from close_fence_line [OF this, of "''---'' @ newline # r"] True show ?thesis by simp
  next
    case False
    with Cons.prems show ?thesis by (auto simp: clean_block_def intro: close_fence_other)
  qed
  with Cons.IH [OF clean] show ?case by simp
qed

lemma front_matter_block:
  "clean_block g \<Longrightarrow>
   front_matter (''---'' @ [newline] @ g @ [newline] @ ''---'' @ [newline] @ r) = Some (g, r)"
  using find_close_block [of g r] by (simp add: front_matter_def starts_with_def strip_eol_def)

section \<open>Properties\<close>

text \<open>
  C7: \<open>validateMetadata\<close> accepts a page exactly if its metadata satisfies \<open>page_spec\<close> and no
  earlier page has its identifier: an identifier of letters, digits and hyphens that starts with
  a letter, a nonblank title, the collection of its directory, a positive safe integer as
  position of a handbook page, a list of strings as related identifiers, and for requirements
  and decisions a record number, a status of the collection and, for decisions, a real date
  and \<open>superseded_by\<close> exactly when superseded. It then records the page under the identifier
  and changes no other entry. These are the rules the code checks; the documented naming
  rules for handbook and template identifiers and \<open>superseded_by\<close> outside decisions are not
  checked.
\<close>
theorem validateMetadata_accepts:
  "(\<exists>ids'. validateMetadata ids pg = Inr ids' \<and> map_get ids' = m) \<longleftrightarrow>
   page_spec pg \<and> map_get ids (page_id pg) = None \<and> m = (map_get ids)(page_id pg \<mapsto> pg)"
  by (auto simp: validateMetadata_iff map_has_def jm.get_put)

text \<open>
  C27: whatever \<open>validateMetadata\<close> rejects a page for, the message starts with the source path
  of that page.
\<close>
theorem validateMetadata_names_page:
  assumes "validateMetadata ids pg = Inl e"
  shows "\<exists>m. error_message e = p_source pg @ '': '' @ m"
  using assms
  by (auto simp: validateMetadata_def validateRecord_def Let_def seqE throw_if_def
      split: option.splits if_splits)

theorem validateMetadata_names_page_witness:
  "\<exists>m. error_message (BadId ''docs/a.md'') = ''docs/a.md'' @ '': '' @ m"
  using validateMetadata_names_page [of "[]"
      "\<lparr>p_source = ''docs/a.md'', p_target = ''a.md'', p_collection = ''handbook'',
        p_metadata = JObj [(''id'', JStr ''1'')], p_tree = MdNode ''root'' None 0 None None [] []\<rparr>"
      "BadId ''docs/a.md''"]
  by (simp add: validateMetadata_def prop_of_def is_alpha_def is_upper_def is_lower_def code_def)

end
