(* ===== verification/UriComponent.thy ===== *)
theory UriComponent
  imports JsString
begin

text \<open>
  \<open>encodeURIComponent\<close> and \<open>decodeURIComponent\<close> of ECMAScript on UTF-8 strings. The decoder
  returns \<open>None\<close> where the engine throws \<open>URIError: URI malformed\<close>: a percent sign not
  followed by two hexadecimal digits, or escapes that are not well-formed UTF-8.
\<close>

definition uri_unreserved :: "char \<Rightarrow> bool" where
  "uri_unreserved c = (is_alnum c \<or> code c \<in> set [45, 95, 46, 33, 126, 42, 39, 40, 41])"

definition hex_digit :: "nat \<Rightarrow> char" where
  "hex_digit n = (if n < 10 then of_code (48 + n) else of_code (55 + n))"

definition percent :: "char \<Rightarrow> string" where
  "percent c = [CHR ''%'', hex_digit (code c div 16), hex_digit (code c mod 16)]"

definition encodeURIComponent :: "string \<Rightarrow> string" where
  "encodeURIComponent s = concat (map (\<lambda>c. if uri_unreserved c then [c] else percent c) s)"

definition hex_val :: "char \<Rightarrow> nat option" where
  "hex_val c =
     (if is_digit c then Some (code c - 48)
      else if 65 \<le> code c \<and> code c \<le> 70 then Some (code c - 55)
      else if 97 \<le> code c \<and> code c \<le> 102 then Some (code c - 87)
      else None)"

text \<open>One escape \<open>%XX\<close> at the start of the string: its byte and the rest.\<close>

definition take_escape :: "string \<Rightarrow> (char \<times> string) option" where
  "take_escape s =
     (case s of
        p # h # l # r \<Rightarrow>
          (if p = CHR ''%'' then
             (case (hex_val h, hex_val l) of
                (Some a, Some b) \<Rightarrow> Some (of_code (16 * a + b), r)
              | _ \<Rightarrow> None)
           else None)
      | _ \<Rightarrow> None)"

fun take_escapes :: "nat \<Rightarrow> string \<Rightarrow> (string \<times> string) option" where
  "take_escapes 0 s = Some ([], s)"
| "take_escapes (Suc n) s =
     (case take_escape s of
        None \<Rightarrow> None
      | Some (b, r) \<Rightarrow>
          (case take_escapes n r of None \<Rightarrow> None | Some (bs, r') \<Rightarrow> Some (b # bs, r')))"

text \<open>One step of the decoder: the bytes of the next character and the rest.\<close>

definition decode_char :: "string \<Rightarrow> (string \<times> string) option" where
  "decode_char s =
     (case s of
        [] \<Rightarrow> None
      | c # r \<Rightarrow>
          if c \<noteq> CHR ''%'' then Some ([c], r)
          else case take_escape s of
            None \<Rightarrow> None
          | Some (b, r') \<Rightarrow>
              (case take_escapes (char_len b - 1) r' of
                 None \<Rightarrow> None
               | Some (bs, r'') \<Rightarrow> if valid_char (b # bs) then Some (b # bs, r'') else None))"

lemma take_escape_less: "take_escape s = Some (b, r) \<Longrightarrow> length r < length s"
  by (auto simp: take_escape_def split: list.splits if_splits option.splits)

lemma take_escapes_le: "take_escapes n s = Some (bs, r) \<Longrightarrow> length r \<le> length s"
  by (induction n arbitrary: s bs r)
    (fastforce dest: take_escape_less split: option.splits)+

lemma decode_char_less: "decode_char s = Some (p, r) \<Longrightarrow> length r < length s"
  by (fastforce simp: decode_char_def dest: take_escape_less take_escapes_le
      split: list.splits if_splits option.splits)

function decodeURIComponent :: "string \<Rightarrow> string option" where
  "decodeURIComponent s =
     (if s = [] then Some []
      else case decode_char s of
        None \<Rightarrow> None
      | Some (p, r) \<Rightarrow> map_option ((@) p) (decodeURIComponent r))"
  by pat_completeness auto
termination
  by (relation "measure length") (auto dest: decode_char_less)

declare decodeURIComponent.simps [simp del]

lemma decode_Nil [simp]: "decodeURIComponent [] = Some []"
  by (simp add: decodeURIComponent.simps)

lemma decode_step:
  "decode_char s = Some (p, r) \<Longrightarrow> decodeURIComponent s = map_option ((@) p) (decodeURIComponent r)"
  by (subst decodeURIComponent.simps) (auto simp: decode_char_def)

text \<open>A text without escapes decodes to itself.\<close>

lemma decode_plain: "CHR ''%'' \<notin> set s \<Longrightarrow> decodeURIComponent s = Some s"
proof (induction s)
  case (Cons c s)
  then have "decode_char (c # s) = Some ([c], s)" by (auto simp: decode_char_def)
  from decode_step [OF this] Cons show ?case by simp
qed simp

section \<open>Decoding undoes encoding\<close>

lemma hex_val_hex_digit [simp]: "n < 16 \<Longrightarrow> hex_val (hex_digit n) = Some n"
  by (auto simp: hex_val_def hex_digit_def is_digit_def)

lemma code_div16 [simp]: "code c div 16 < 16"
  using code_less [of c] by linarith

lemma take_escape_percent [simp]: "take_escape (percent c @ r) = Some (c, r)"
  by (simp add: take_escape_def percent_def)

lemma not_unreserved_high: "128 \<le> code c \<Longrightarrow> \<not> uri_unreserved c"
  by (auto simp: uri_unreserved_def char_class_defs)

lemma not_unreserved_percent: "\<not> uri_unreserved CHR ''%''"
  by (simp add: uri_unreserved_def char_class_defs)

lemma encode_Cons:
  "encodeURIComponent (c # s) =
     (if uri_unreserved c then [c] else percent c) @ encodeURIComponent s"
  by (simp add: encodeURIComponent_def)

lemma encode_Nil [simp]: "encodeURIComponent [] = []"
  by (simp add: encodeURIComponent_def)

lemma encode_append: "encodeURIComponent (s @ t) = encodeURIComponent s @ encodeURIComponent t"
  by (simp add: encodeURIComponent_def)

lemma take_escapes_high:
  "list_all (\<lambda>c. 128 \<le> code c) p \<Longrightarrow> take_escapes (length p) (encodeURIComponent p @ r) = Some (p, r)"
  by (induction p) (auto simp: encode_Cons not_unreserved_high)

lemma decode_char_encode_ascii:
  assumes "code c < 128"
  shows "decode_char (encodeURIComponent [c] @ r) = Some ([c], r)"
proof (cases "uri_unreserved c")
  case True
  moreover from this have "c \<noteq> CHR ''%''" using not_unreserved_percent by auto
  ultimately show ?thesis by (simp add: decode_char_def encodeURIComponent_def)
next
  case False
  have "decode_char (percent c @ r) = Some ([c], r)"
    using assms take_escape_percent [of c r]
    by (simp add: decode_char_def percent_def char_len_def)
  with False show ?thesis by (simp add: encodeURIComponent_def)
qed

lemma decode_char_encode_multi:
  assumes "valid_char (c # p)" "p \<noteq> []"
  shows "decode_char (encodeURIComponent (c # p) @ r) = Some (c # p, r)"
proof -
  have high: "list_all (\<lambda>c. 128 \<le> code c) (c # p)" and len: "char_len c - 1 = length p"
    using assms by (cases "c # p" rule: valid_char.cases; auto simp: cont_byte_def char_len_def)+
  then have enc: "encodeURIComponent (c # p) @ r = percent c @ encodeURIComponent p @ r"
    by (simp add: encode_Cons not_unreserved_high)
  have "take_escapes (char_len c - 1) (encodeURIComponent p @ r) = Some (p, r)"
    using high len take_escapes_high [of p r] by simp
  then show ?thesis
    using assms(1) take_escape_percent [of c "encodeURIComponent p @ r"]
    by (simp add: enc decode_char_def percent_def)
qed

lemma decode_char_encode:
  "valid_char p \<Longrightarrow> decode_char (encodeURIComponent p @ r) = Some (p, r)"
proof (cases p)
  case (Cons c q)
  assume "valid_char p"
  with Cons show ?thesis
    by (cases "q = []") (simp_all add: decode_char_encode_ascii decode_char_encode_multi)
qed simp

lemma decode_encode_chars:
  "list_all valid_char ps \<Longrightarrow> decodeURIComponent (encodeURIComponent (concat ps)) = Some (concat ps)"
  by (induction ps)
    (auto simp: encode_append decode_step [OF decode_char_encode])

lemma decode_encode: "valid_utf8 s \<Longrightarrow> decodeURIComponent (encodeURIComponent s) = Some s"
  using decode_encode_chars [of "utf8_chars s"] by (simp add: valid_utf8_def)

text \<open>The encoder leaves no delimiter of a path or URL in a segment.\<close>

lemma hex_digit_alnum: "n < 16 \<Longrightarrow> is_alnum (hex_digit n)"
  by (auto simp: hex_digit_def char_class_defs of_code_def)

lemma encode_chars:
  "c \<in> set (encodeURIComponent s) \<Longrightarrow> uri_unreserved c \<or> c = CHR ''%''"
  by (auto simp: encodeURIComponent_def percent_def uri_unreserved_def hex_digit_alnum split: if_splits)

lemma encode_no_slash: "CHR ''/'' \<notin> set (encodeURIComponent s)"
  by (auto dest!: encode_chars simp: uri_unreserved_def char_class_defs)

end
