(* ===== verification/DocLinks.thy ===== *)
theory DocLinks
  imports DocPage UriComponent
begin

text \<open>
  Links of a page: \<open>localTarget\<close>, which resolves a link to a file of the repository or
  throws, and \<open>sourceURL\<close>, the address of a file in the repository's web view. The main fact
  is confinement: a link is accepted exactly if its decoded path, resolved from the page,
  lies in the repository and exists there.
\<close>

section \<open>Resolving a link\<close>

record link_target =
  t_source :: string
  t_suffix :: string
  t_directory :: bool

text \<open>\<open>/^(?:[A-Za-z][A-Za-z0-9+.-]*:|\/|#)/\<close>\<close>

definition scheme_char :: "char \<Rightarrow> bool" where
  "scheme_char c = (is_alnum c \<or> c = CHR ''+'' \<or> c = CHR ''.'' \<or> c = CHR ''-'')"

definition external_url :: "string \<Rightarrow> bool" where
  "external_url u =
     (case u of
        [] \<Rightarrow> False
      | c # r \<Rightarrow>
          c = CHR ''/'' \<or> c = CHR ''#'' \<or>
          (is_alpha c \<and>
           (case dropWhile scheme_char r of [] \<Rightarrow> False | d # r' \<Rightarrow> d = CHR '':'')))"

definition path_char :: "char \<Rightarrow> bool" where
  "path_char c = (c \<noteq> CHR ''?'' \<and> c \<noteq> CHR ''#'')"

text \<open>
  \<open>/^([^?#]*)(.*)$/\<close> takes the path up to the first \<open>?\<close> or \<open>#\<close>; it fails if a line terminator
  follows, and taking \<open>null\<close> apart then throws.
\<close>

definition url_path :: "string \<Rightarrow> string" where
  "url_path u = takeWhile path_char u"

definition url_suffix :: "string \<Rightarrow> string" where
  "url_suffix u = dropWhile path_char u"

definition no_match :: doc_error where
  "no_match = TypeError ''exec(...) is not a function or its return value is not iterable''"

definition localTarget ::
    "string \<Rightarrow> fs \<Rightarrow> string \<Rightarrow> page \<Rightarrow> string option \<Rightarrow> doc_error + link_target option" where
  "localTarget cwd fs root pg url =
     (case url of
        None \<Rightarrow> Inr None
      | Some u \<Rightarrow>
          if u = [] \<or> external_url u then Inr None
          else if has_line_terminator (url_suffix u) then Inl no_match
          else if url_path u = [] then Inr None
          else case decodeURIComponent (url_path u) of
            None \<Rightarrow> Inl URIError
          | Some decoded \<Rightarrow>
              (let absolute = path_resolve cwd [root, path_dirname (p_source pg), decoded];
                   source = repositoryPath cwd root absolute
               in if source = ''..'' \<or> starts_with source ''../'' \<or> isAbsolute source
                  then Inl (LinkLeaves (p_source pg) u)
                  else if \<not> exists_path fs (resolve_segs cwd [absolute])
                  then Inl (MissingTarget (p_source pg) u)
                  else Inr (Some \<lparr>t_source = source, t_suffix = url_suffix u,
                                 t_directory = is_directory fs (resolve_segs cwd [absolute])\<rparr>)))"

text \<open>The links that \<open>localTarget\<close> treats as files of the repository.\<close>

definition local_url :: "string \<Rightarrow> bool" where
  "local_url u =
     (u \<noteq> [] \<and> \<not> external_url u \<and> \<not> has_line_terminator (url_suffix u) \<and> url_path u \<noteq> [])"

lemma localTarget_local:
  assumes "local_url u"
  shows "localTarget cwd fs root pg (Some u) =
    (case decodeURIComponent (url_path u) of
       None \<Rightarrow> Inl URIError
     | Some decoded \<Rightarrow>
         let p = resolve_segs cwd [root, path_dirname (p_source pg), decoded];
             source = repositoryPath cwd root (path_resolve cwd [root, path_dirname (p_source pg), decoded])
         in if \<not> prefix (resolve_segs cwd [root]) p then Inl (LinkLeaves (p_source pg) u)
            else if fs p = None then Inl (MissingTarget (p_source pg) u)
            else Inr (Some \<lparr>t_source = source, t_suffix = url_suffix u, t_directory = (fs p = Some FDir)\<rparr>))"
  using assms leaves_iff [of cwd root]
  by (auto simp: localTarget_def local_url_def leaves_def Let_def exists_path_def is_directory_def
      split: option.splits)

lemma localTarget_Some_local:
  "localTarget cwd fs root pg url = Inr (Some t) \<Longrightarrow> \<exists>u. url = Some u \<and> local_url u"
  by (auto simp: localTarget_def local_url_def split: option.splits if_splits)

lemma localTarget_inside:
  assumes "localTarget cwd fs root pg url = Inr (Some t)"
  obtains u decoded ss where "url = Some u" "local_url u" "decodeURIComponent (url_path u) = Some decoded"
    "resolve_segs cwd [root, path_dirname (p_source pg), decoded] = resolve_segs cwd [root] @ ss"
    "\<forall>s\<in>set ss. plain s" "fs (resolve_segs cwd [root] @ ss) \<noteq> None"
    "t = \<lparr>t_source = of_segs ss, t_suffix = url_suffix u,
          t_directory = (fs (resolve_segs cwd [root] @ ss) = Some FDir)\<rparr>"
proof -
  obtain u where u: "url = Some u" "local_url u" using localTarget_Some_local assms by blast
  then obtain decoded where d: "decodeURIComponent (url_path u) = Some decoded"
    using assms by (auto simp: localTarget_local split: option.splits)
  define absolute where "absolute = path_resolve cwd [root, path_dirname (p_source pg), decoded]"
  have p: "resolve_segs cwd [absolute] = resolve_segs cwd [root, path_dirname (p_source pg), decoded]"
    by (simp add: absolute_def)
  from assms u d have pre: "prefix (resolve_segs cwd [root]) (resolve_segs cwd [absolute])"
    and ex: "fs (resolve_segs cwd [absolute]) \<noteq> None"
    and t: "t = \<lparr>t_source = repositoryPath cwd root absolute, t_suffix = url_suffix u,
                 t_directory = (fs (resolve_segs cwd [absolute]) = Some FDir)\<rparr>"
    by (auto simp: localTarget_local Let_def p absolute_def split: if_splits)
  from pre have "\<not> leaves (repositoryPath cwd root absolute)" by (simp add: leaves_iff)
  then obtain ss where "resolve_segs cwd [absolute] = resolve_segs cwd [root] @ ss"
    "repositoryPath cwd root absolute = of_segs ss" "\<forall>s\<in>set ss. plain s"
    by (rule repositoryPath_inside)
  with u d p ex t show ?thesis by (intro that [of u decoded ss]) simp_all
qed

section \<open>Reading a relative link\<close>

text \<open>
  A text that a URL reader takes literally: it has no escape, query or fragment mark. The
  assembler writes paths into links without encoding them, so only such paths are read back.
\<close>

definition url_literal :: "string \<Rightarrow> bool" where
  "url_literal s = list_all (\<lambda>c. c \<noteq> CHR ''%'' \<and> c \<noteq> CHR ''?'' \<and> c \<noteq> CHR ''#'') s"

lemma url_literal_append [simp]: "url_literal (s @ t) \<longleftrightarrow> url_literal s \<and> url_literal t"
  by (simp add: url_literal_def)

lemma url_literal_join: "url_literal sep \<Longrightarrow> list_all url_literal ss \<Longrightarrow> url_literal (join sep ss)"
  by (induction ss) (auto simp: join_Cons url_literal_def)

lemma split_on_subset: "s \<in> set (split_on c p) \<Longrightarrow> set s \<subseteq> set p"
proof (induction p arbitrary: s)
  case (Cons x p)
  obtain y ys where ys: "split_on c p = y # ys" by (cases "split_on c p") auto
  have IH: "set t \<subseteq> set p" if "t \<in> set (y # ys)" for t using Cons.IH that ys by simp
  from Cons.prems ys consider "s = []" | "s = x # y" | "s \<in> set (y # ys)" by (auto split: if_splits)
  then show ?case by cases (use IH [of y] IH [of s] in auto)
qed simp

lemma url_literal_subset: "url_literal p \<Longrightarrow> set s \<subseteq> set p \<Longrightarrow> url_literal s"
  unfolding url_literal_def list_all_iff by blast

lemma url_literal_segments: "url_literal p \<Longrightarrow> list_all url_literal (segments p)"
  unfolding list_all_iff segments_def
  by (intro ballI) (erule url_literal_subset, rule split_on_subset)

lemma relative_segs_literal:
  "list_all url_literal ys \<Longrightarrow> list_all url_literal (relative_segs xs ys)"
proof -
  assume ys: "list_all url_literal ys"
  obtain us ds where sc: "strip_common xs ys = (us, ds)" by force
  then obtain cs where "ys = cs @ ds" using strip_common_split by blast
  then have "list_all url_literal ds" using ys by simp
  moreover have "url_literal ''..''" by (simp add: url_literal_def)
  ultimately show ?thesis by (auto simp: relative_segs_def sc list_all_iff)
qed

lemma url_path_suffix:
  assumes "url_literal s" "x = [] \<or> \<not> path_char (hd x)"
  shows "url_path (s @ x) = s" "url_suffix (s @ x) = x"
proof -
  have "\<forall>c\<in>set s. path_char c" using assms(1) by (simp add: url_literal_def path_char_def list_all_iff)
  moreover have "takeWhile path_char x = []" "dropWhile path_char x = x" using assms(2) by (cases x; simp)+
  ultimately show "url_path (s @ x) = s" "url_suffix (s @ x) = x"
    by (simp_all add: url_path_def url_suffix_def takeWhile_append2 dropWhile_append2)
qed

lemma url_suffix_mark: "url_suffix u = [] \<or> \<not> path_char (hd (url_suffix u))"
  unfolding url_suffix_def using hd_dropWhile by blast

text \<open>Resolving relative paths from a root is resolving them from the resolved root.\<close>

lemma resolve_from_root:
  assumes "\<forall>x\<in>set xs. \<not> isAbsolute x"
  shows "resolve_segs cwd (root # xs) = resolve_segs (path_resolve cwd [root]) xs"
proof -
  have none: "\<not> list_ex isAbsolute xs" using assms by (auto simp: list_ex_iff)
  have site: "norm_segs False [] (segments (path_resolve cwd [root])) = resolve_segs cwd [root]"
    using resolve_path_resolve [of cwd cwd "[root]"] by (simp add: path_resolve_def resolve_absolute)
  have "resolve_segs cwd (root # xs) = norm_segs False (rev (resolve_segs cwd [root])) (concat (map segments xs))"
    using none by (simp add: resolve_segs_def norm_segs_append)
  moreover have "resolve_segs (path_resolve cwd [root]) xs =
      norm_segs False (rev (resolve_segs cwd [root])) (concat (map segments xs))"
    using none site by (cases xs) (simp_all add: resolve_segs_def norm_segs_append)
  ultimately show ?thesis by simp
qed

lemma dirname_plain_relative:
  assumes "plain_path p"
  shows "\<not> isAbsolute (path_dirname p)"
proof -
  obtain ds f where p: "p = of_segs (ds @ [f])" and plain: "\<forall>s\<in>set (ds @ [f]). plain s"
    using assms by (rule plain_path_segs)
  have f: "f \<noteq> []" "CHR ''/'' \<notin> set f" and ds: "\<forall>s\<in>set ds. plain s" using plain by (auto simp: plain_def)
  show ?thesis
  proof (cases "ds = []")
    case True
    then show ?thesis using f p by (simp add: of_segs_def dirname_single)
  next
    case False
    then have "p = of_segs ds @ ''/'' @ f" using p by (simp add: of_segs_snoc)
    then have "path_dirname p = of_segs ds"
      using dirname_append [OF f] False of_segs_eq_Nil [OF ds] of_segs_plain_relative [OF ds] by simp
    then show ?thesis using of_segs_plain_relative [OF ds] by simp
  qed
qed

lemma relative_link_form:
  assumes "plain_path p" "plain_path q" "url_literal q"
  shows "url_literal (relative cwd p q)" "\<exists>r. relative cwd p q = CHR ''.'' # r"
proof -
  obtain ds f where p: "p = of_segs (ds @ [f])" "\<forall>s\<in>set (ds @ [f]). plain s"
    using assms(1) by (rule plain_path_segs)
  obtain es e where q: "q = of_segs (es @ [e])" "\<forall>s\<in>set (es @ [e]). plain s"
    using assms(2) by (rule plain_path_segs)
  have "segments q = es @ [e]" unfolding q(1) using q(2) by (intro segments_of_segs) (auto simp: plain_no_slash)
  then have "list_all url_literal (es @ [e])" using url_literal_segments [OF assms(3)] by simp
  then have "url_literal (of_segs (relative_segs ds (es @ [e])))"
    unfolding of_segs_def by (intro url_literal_join relative_segs_literal) (simp_all add: url_literal_def)
  moreover have "url_literal ''./''" by (simp add: url_literal_def)
  ultimately show "url_literal (relative cwd p q)"
    unfolding p(1) q(1) relative_plain [OF p(2) q(2)] Let_def by (simp only: url_literal_append if_split) simp
  have "starts_with (relative cwd p q) ''.''" by (auto simp: relative_def Let_def starts_with_def)
  then show "\<exists>r. relative cwd p q = CHR ''.'' # r" by (cases "relative cwd p q") (auto simp: starts_with_def)
qed

text \<open>
  A relative link between plain paths, read by \<open>localTarget\<close> from a page at \<open>p\<close> below any root,
  leads to \<open>q\<close> below that root, with the query or fragment that was appended.
\<close>

lemma localTarget_reads_relative:
  assumes "plain_path p" "plain_path q" "url_literal q" "p_source pg = p"
    and "x = [] \<or> \<not> path_char (hd x)" "\<not> has_line_terminator x"
    and "fs (resolve_segs cwd [root] @ segments q) \<noteq> None"
  shows "localTarget cwd fs root pg (Some (relative cwd p q @ x)) =
    Inr (Some \<lparr>t_source = q, t_suffix = x,
               t_directory = (fs (resolve_segs cwd [root] @ segments q) = Some FDir)\<rparr>)"
proof -
  let ?l = "relative cwd p q"
  note form = relative_link_form [OF assms(1-3), of cwd]
  obtain r where r: "?l = CHR ''.'' # r" using form(2) by blast
  note parts = url_path_suffix [OF form(1) assms(5)]
  have local: "local_url (?l @ x)"
    using assms(6) unfolding local_url_def parts by (simp add: r external_url_def is_alpha_def is_upper_def is_lower_def code_def)
  have dec: "decodeURIComponent ?l = Some ?l"
    using form(1) by (intro decode_plain) (auto simp: url_literal_def list_all_iff)
  have plain: "\<forall>s\<in>set (segments q). plain s" using assms(2) by (simp add: plain_path_def list_all_iff)
  have "resolve_segs cwd [root, path_dirname p, ?l] = resolve_segs (path_resolve cwd [root]) [path_dirname p, ?l]"
    by (rule resolve_from_root) (simp add: dirname_plain_relative [OF assms(1)] r)
  also have "\<dots> = resolve_segs (path_resolve cwd [root]) [of_segs (segments q)]"
    using plain_path_resolves [OF assms(1,2)] by simp
  also have "\<dots> = resolve_segs cwd [root] @ segments q"
    using resolve_plain [OF plain] resolve_from_root [of "[]" cwd root] by simp
  finally have res: "resolve_segs cwd [root, path_dirname p, ?l] = resolve_segs cwd [root] @ segments q" .
  have "repositoryPath cwd root (path_resolve cwd [root, path_dirname p, ?l]) = q"
    by (simp add: repositoryPath_relative path_relative_segs relative_segs_def res)
  with res assms(4,7) show ?thesis unfolding localTarget_local [OF local] parts dec by (simp add: Let_def)
qed

section \<open>The address of a source file\<close>

record build_context =
  x_repository :: "string option"
  x_revision :: string
  x_dirty :: bool

definition nonempty :: "string option \<Rightarrow> string option" where
  "nonempty s = (case s of None \<Rightarrow> None | Some t \<Rightarrow> if t = [] then None else Some t)"

definition sourceURL :: "build_context \<Rightarrow> string \<Rightarrow> bool \<Rightarrow> doc_error + string" where
  "sourceURL context source directory =
     (case nonempty (x_repository context) of
        None \<Rightarrow> Inl NoRepository
      | Some repository \<Rightarrow>
          let filename = join ''/'' (map encodeURIComponent (split_on CHR ''/'' source))
          in Inr (repository @ ''/'' @ (if directory then ''tree'' else ''blob'') @ ''/'' @
                  encodeURIComponent (x_revision context) @ ''/'' @ filename))"

section \<open>Properties\<close>

text \<open>
  C5: confinement. \<open>localTarget\<close> resolves a link to a target exactly if the link is a local
  path, decodes, resolves from the page's directory to a path below the repository root, and
  something exists there; the target is that path relative to the root, the query or
  fragment, and whether it is a directory.
\<close>
theorem localTarget_accepts:
  "localTarget cwd fs root pg url = Inr (Some t) \<longleftrightarrow>
   (\<exists>u decoded ss. url = Some u \<and> local_url u \<and> decodeURIComponent (url_path u) = Some decoded \<and>
      resolve_segs cwd [root, path_dirname (p_source pg), decoded] = resolve_segs cwd [root] @ ss \<and>
      fs (resolve_segs cwd [root] @ ss) \<noteq> None \<and>
      t = \<lparr>t_source = of_segs ss, t_suffix = url_suffix u,
           t_directory = (fs (resolve_segs cwd [root] @ ss) = Some FDir)\<rparr>)"
    (is "_ \<longleftrightarrow> ?rhs")
proof
  assume "localTarget cwd fs root pg url = Inr (Some t)"
  then show ?rhs by (elim localTarget_inside) blast
next
  assume ?rhs
  then obtain u decoded ss where u: "url = Some u" "local_url u" "decodeURIComponent (url_path u) = Some decoded"
    and p: "resolve_segs cwd [root, path_dirname (p_source pg), decoded] = resolve_segs cwd [root] @ ss"
    and ex: "fs (resolve_segs cwd [root] @ ss) \<noteq> None"
    and t: "t = \<lparr>t_source = of_segs ss, t_suffix = url_suffix u,
                 t_directory = (fs (resolve_segs cwd [root] @ ss) = Some FDir)\<rparr>"
    by blast
  have "repositoryPath cwd root (path_resolve cwd [root, path_dirname (p_source pg), decoded]) = of_segs ss"
    by (simp add: repositoryPath_relative path_relative_segs relative_segs_def p)
  with u p ex t show "localTarget cwd fs root pg url = Inr (Some t)"
    by (simp add: localTarget_local Let_def)
qed

end
