(* ===== verification/DocIndex.thy ===== *)
theory DocIndex
  imports DocLinks
begin

text \<open>
  \<open>validateIndex\<close>: the overview page lists, under a heading per collection, every page of the
  collection once, in ascending order. The index is computed from the overview's tree
  (\<open>indexEntries\<close>) and then compared with the pages.
\<close>

section \<open>Reading the index\<close>

type_synonym sources = "(string, page) jsmap"
type_synonym entries = "(string, page list) jsmap"

text \<open>The nodes of the given types that \<open>visit(tree, types, visitor)\<close> passes to its visitor.\<close>

definition visit_nodes :: "packages \<Rightarrow> mdnode \<Rightarrow> string list \<Rightarrow> mdnode list" where
  "visit_nodes pkg t types =
     filter (\<lambda>n. md_type n \<in> set types) (List.map_filter (node_at t) (visit_order pkg t))"

definition initialEntries :: entries where
  "initialEntries = map (\<lambda>c. (c_name c, [])) collections"

text \<open>A later definition of an identifier replaces an earlier one.\<close>

definition indexDefinitions :: "packages \<Rightarrow> mdnode \<Rightarrow> (string option, string option) jsmap" where
  "indexDefinitions pkg t =
     foldl (\<lambda>m n. map_set m (md_identifier n) (md_url n)) [] (visit_nodes pkg t [''definition''])"

definition linkURL :: "(string option, string option) jsmap \<Rightarrow> mdnode \<Rightarrow> string option" where
  "linkURL definitions n =
     (if md_type n = ''link'' then md_url n
      else (case map_get definitions (md_identifier n) of None \<Rightarrow> None | Some u \<Rightarrow> u))"

definition linkedPage ::
    "string \<Rightarrow> fs \<Rightarrow> string \<Rightarrow> page \<Rightarrow> sources \<Rightarrow> string option \<Rightarrow> doc_error + page option" where
  "linkedPage cwd fs root overview sources url =
     bindE (localTarget cwd fs root overview url) (\<lambda>t.
       Inr (case t of None \<Rightarrow> None | Some tg \<Rightarrow> map_get sources (t_source tg)))"

definition rowLinks ::
    "packages \<Rightarrow> string \<Rightarrow> fs \<Rightarrow> string \<Rightarrow> page \<Rightarrow> (string option, string option) jsmap \<Rightarrow> sources \<Rightarrow>
     mdnode \<Rightarrow> doc_error + page option list" where
  "rowLinks pkg cwd fs root overview definitions sources cell =
     mapE (\<lambda>n. linkedPage cwd fs root overview sources (linkURL definitions n))
       (visit_nodes pkg cell [''link'', ''linkReference''])"

text \<open>\<open>links.length !== 1 || !links[0]\<close> fails exactly for one found page.\<close>

definition only_link :: "page option list \<Rightarrow> page option" where
  "only_link links = (if length links = 1 then links ! 0 else None)"

lemma only_link_Some: "only_link links = Some pg \<longleftrightarrow> links = [Some pg]"
  by (cases links) (auto simp: only_link_def)

definition indexRow ::
    "packages \<Rightarrow> string \<Rightarrow> fs \<Rightarrow> string \<Rightarrow> page \<Rightarrow> (string option, string option) jsmap \<Rightarrow> sources \<Rightarrow>
     string \<Rightarrow> entries \<Rightarrow> mdnode \<Rightarrow> doc_error + entries" where
  "indexRow pkg cwd fs root overview definitions sources name entries row =
     (let cs = md_children row; ov = p_source overview in
      if length cs \<noteq> 2 \<or> trim (nodeText (cs ! 1)) = [] then Inl (IndexRowShape ov name)
      else bindE (rowLinks pkg cwd fs root overview definitions sources (cs ! 0)) (\<lambda>links.
        case only_link links of
          None \<Rightarrow> Inl (IndexRowLink ov name)
        | Some pg \<Rightarrow>
            if p_collection pg \<noteq> name then Inl (WrongIndex ov (p_source pg) (p_collection pg))
            else let indexed = (case map_get entries name of None \<Rightarrow> [] | Some xs \<Rightarrow> xs) in
              if pg \<in> set indexed then Inl (DuplicateEntry ov (p_source pg))
              else Inr (map_set entries name (indexed @ [pg]))))"

type_synonym index_section = "(string \<times> nat) option"

definition headingSection :: "entries \<Rightarrow> index_section \<Rightarrow> mdnode \<Rightarrow> index_section" where
  "headingSection entries sec n =
     (if md_type n = ''heading'' then
        (let sec' = (case sec of Some (nm, d) \<Rightarrow> if md_depth n \<le> d then None else sec | None \<Rightarrow> None);
             name = to_lower (trim (nodeText n))
         in if map_has entries name then Some (name, md_depth n) else sec')
      else sec)"

definition indexNode ::
    "packages \<Rightarrow> string \<Rightarrow> fs \<Rightarrow> string \<Rightarrow> page \<Rightarrow> (string option, string option) jsmap \<Rightarrow> sources \<Rightarrow>
     index_section \<times> entries \<Rightarrow> mdnode \<Rightarrow> doc_error + index_section \<times> entries" where
  "indexNode pkg cwd fs root overview definitions sources st n =
     (case st of (sec, entries) \<Rightarrow>
        let sec' = headingSection entries sec n in
        case sec' of
          None \<Rightarrow> Inr (None, entries)
        | Some (name, d) \<Rightarrow>
            if md_type n \<noteq> ''table'' then Inr (sec', entries)
            else bindE (foldE (indexRow pkg cwd fs root overview definitions sources name) entries
                          (drop 1 (md_children n)))
                   (\<lambda>entries'. Inr (sec', entries')))"

definition indexEntries ::
    "packages \<Rightarrow> string \<Rightarrow> fs \<Rightarrow> string \<Rightarrow> page \<Rightarrow> sources \<Rightarrow> doc_error + entries" where
  "indexEntries pkg cwd fs root overview sources =
     bindE (foldE (indexNode pkg cwd fs root overview (indexDefinitions pkg (p_tree overview)) sources)
              (None, initialEntries) (md_children (p_tree overview)))
       (\<lambda>(sec, entries). Inr entries)"

section \<open>Comparing the index with the pages\<close>

definition checkPosition ::
    "packages \<Rightarrow> (jsval, string) jsmap \<Rightarrow> page \<Rightarrow> doc_error + (jsval, string) jsmap" where
  "checkPosition pkg positions pg =
     (let position = meta pg ''sidebar_position'' in
      case map_get positions position of
        Some other \<Rightarrow>
          bindE (to_string (number_format pkg) position)
            (\<lambda>s. Inl (DuplicatePosition (p_source pg) s other))
      | None \<Rightarrow> Inr (map_set positions position (p_source pg)))"

text \<open>
  The order of a page in its index. Positions and record numbers have been validated, so
  both are integers; \<open>BigInt(id.slice(4))\<close> reads the digits after the prefix.
\<close>

definition index_order :: "string \<Rightarrow> page \<Rightarrow> int" where
  "index_order name pg =
     (if name = ''handbook'' then
        (case meta pg ''sidebar_position'' of JNum (NumInt n) \<Rightarrow> n | _ \<Rightarrow> 0)
      else int (parse_nat (drop 4 (page_id pg))))"

fun ascending :: "(page \<Rightarrow> int) \<Rightarrow> page list \<Rightarrow> bool" where
  "ascending f (x # y # xs) = (f x < f y \<and> ascending f (y # xs))"
| "ascending f _ = True"

definition checkCollection :: "string \<Rightarrow> page list \<Rightarrow> entries \<Rightarrow> string \<Rightarrow> doc_error + unit" where
  "checkCollection ov pages entries name =
     (let indexed = (case map_get entries name of None \<Rightarrow> [] | Some xs \<Rightarrow> xs);
          missing = filter (\<lambda>pg. p_collection pg = name \<and> pg \<notin> set indexed) pages
      in bindE (throw_if (missing \<noteq> []) (MissingEntries ov name (map p_source missing))) (\<lambda>_.
         if name = ''templates'' then Inr ()
         else throw_if (\<not> ascending (index_order name) indexed)
           (IndexOrder ov name (if name = ''handbook'' then ''sidebar_position'' else ''record number''))))"

definition validateIndex ::
    "packages \<Rightarrow> string \<Rightarrow> fs \<Rightarrow> string \<Rightarrow> page list \<Rightarrow> sources \<Rightarrow> doc_error + unit" where
  "validateIndex pkg cwd fs root pages sources =
     (case pages of
        [] \<Rightarrow> Inl (TypeError ''Cannot read properties of undefined'')
      | overview # _ \<Rightarrow>
          bindE (indexEntries pkg cwd fs root overview sources) (\<lambda>entries.
          bindE (foldE (checkPosition pkg) [] (filter (\<lambda>pg. p_collection pg = ''handbook'') pages)) (\<lambda>_.
          foldE (\<lambda>_ c. checkCollection (p_source overview) pages entries (c_name c)) () collections)))"

section \<open>Properties of the index\<close>

text \<open>
  The entries collected so far: one list per collection, without repetition, of pages of
  that collection that the documentation has.
\<close>

definition entries_ok :: "sources \<Rightarrow> entries \<Rightarrow> bool" where
  "entries_ok sources entries \<longleftrightarrow>
     map_keys entries = map c_name collections \<and>
     (\<forall>name xs. map_get entries name = Some xs \<longrightarrow>
        distinct xs \<and> (\<forall>pg\<in>set xs. p_collection pg = name \<and> (\<exists>s. map_get sources s = Some pg)))"

lemma entries_ok_initial: "entries_ok sources initialEntries"
  by (auto simp: entries_ok_def initialEntries_def collections_def map_keys_def map_get_def
      split: if_splits)

lemma rowLinks_sources:
  assumes "rowLinks pkg cwd fs root overview definitions sources cell = Inr links" "Some pg \<in> set links"
  shows "\<exists>s. map_get sources s = Some pg"
  using mapE_mem [OF assms [unfolded rowLinks_def]]
  by (auto simp: linkedPage_def seqE split: option.splits)

lemma indexRow_ok:
  assumes "entries_ok sources entries" "map_has entries name"
    and "indexRow pkg cwd fs root overview definitions sources name entries row = Inr entries'"
  shows "entries_ok sources entries'" and "map_has entries' name"
proof -
  from assms(2) obtain xs where xs: "map_get entries name = Some xs" by (auto simp: map_has_def)
  obtain pg where links: "rowLinks pkg cwd fs root overview definitions sources
      (md_children row ! 0) = Inr [Some pg]"
    and pg: "p_collection pg = name" "pg \<notin> set xs" and e: "entries' = map_set entries name (xs @ [pg])"
    using assms(3) xs
    by (auto simp: indexRow_def Let_def seqE only_link_Some split: if_splits option.splits)
  have "\<exists>s. map_get sources s = Some pg" using rowLinks_sources [OF links] by simp
  with pg xs assms(1) show "entries_ok sources entries'"
    by (auto simp: entries_ok_def e jm.get_put jm.keys_put assms(2) split: if_splits)
  show "map_has entries' name" by (simp add: e jm.has_put)
qed

text \<open>Both loops over the overview's tree keep the entries in order.\<close>

interpretation index_rows: validating_loop
    "indexRow pkg cwd fs root overview definitions sources name"
    "\<lambda>_ entries. entries_ok sources entries \<and> map_has entries name"
  for pkg cwd fs root overview definitions sources name
  by unfold_locales (blast intro: indexRow_ok)

definition section_ok :: "sources \<Rightarrow> index_section \<times> entries \<Rightarrow> bool" where
  "section_ok sources st \<longleftrightarrow>
     entries_ok sources (snd st) \<and> (\<forall>name d. fst st = Some (name, d) \<longrightarrow> map_has (snd st) name)"

lemma headingSection_ok:
  "section_ok sources (sec, entries) \<Longrightarrow> section_ok sources (headingSection entries sec n, entries)"
  by (auto simp: section_ok_def headingSection_def Let_def split: option.splits if_splits)

lemma indexNode_ok:
  assumes "section_ok sources st"
    and "indexNode pkg cwd fs root overview definitions sources st n = Inr st'"
  shows "section_ok sources st'"
proof -
  obtain sec entries where st: "st = (sec, entries)" by force
  define sec' where "sec' = headingSection entries sec n"
  have ok: "section_ok sources (sec', entries)"
    using assms(1) headingSection_ok unfolding st sec'_def by blast
  show ?thesis
  proof (cases sec')
    case None
    with assms(2) ok show ?thesis by (simp add: indexNode_def st Let_def flip: sec'_def)
  next
    case (Some nd)
    obtain name d where nd: "nd = (name, d)" by force
    show ?thesis
    proof (cases "md_type n = ''table''")
      case False
      with assms(2) ok Some nd show ?thesis by (auto simp: indexNode_def st Let_def simp flip: sec'_def)
    next
      case True
      with assms(2) Some nd obtain entries' where
        rows: "foldE (indexRow pkg cwd fs root overview definitions sources name) entries
          (drop 1 (md_children n)) = Inr entries'" and st': "st' = (sec', entries')"
        by (auto simp: indexNode_def st Let_def seqE simp flip: sec'_def)
      from ok Some nd have "entries_ok sources entries \<and> map_has entries name"
        by (simp add: section_ok_def)
      then have "entries_ok sources entries' \<and> map_has entries' name"
        using index_rows.loop_inv rows by blast
      with st' Some nd show ?thesis by (simp add: section_ok_def)
    qed
  qed
qed

interpretation index_nodes: validating_loop
    "indexNode pkg cwd fs root overview definitions sources"
    "\<lambda>_ st. section_ok sources st"
  for pkg cwd fs root overview definitions sources
  by unfold_locales (blast intro: indexNode_ok)

lemma indexEntries_ok:
  assumes "indexEntries pkg cwd fs root overview sources = Inr entries"
  shows "entries_ok sources entries"
proof -
  have init: "section_ok sources (None, initialEntries)"
    by (simp add: section_ok_def entries_ok_initial)
  obtain sec where "foldE (indexNode pkg cwd fs root overview
      (indexDefinitions pkg (p_tree overview)) sources)
      (None, initialEntries) (md_children (p_tree overview)) = Inr (sec, entries)"
    using assms by (auto simp: indexEntries_def seqE)
  from index_nodes.loop_inv [OF init this] show ?thesis by (simp add: section_ok_def)
qed

lemma ascending_sorted: "ascending f xs \<longleftrightarrow> sorted_wrt (<) (map f xs)"
proof (induction f xs rule: ascending.induct)
  case (1 f x y xs)
  then show ?case by (auto intro: less_trans)
qed auto

text \<open>Sidebar positions are unique exactly if the loop over them does not throw.\<close>

lemma checkPosition_step:
  "checkPosition pkg positions pg = Inr positions' \<longleftrightarrow>
   \<not> map_has positions (meta pg ''sidebar_position'') \<and>
   positions' = map_set positions (meta pg ''sidebar_position'') (p_source pg)"
  by (auto simp: checkPosition_def Let_def map_has_def seqE split: option.splits)

lemma checkPositions_iff:
  "(\<exists>m'. foldE (checkPosition pkg) m xs = Inr m') \<longleftrightarrow>
   distinct (map (\<lambda>pg. meta pg ''sidebar_position'') xs) \<and>
   (\<forall>pg\<in>set xs. \<not> map_has m (meta pg ''sidebar_position''))"
proof (induction xs arbitrary: m)
  case (Cons x xs)
  have "(\<exists>m'. foldE (checkPosition pkg) m (x # xs) = Inr m') \<longleftrightarrow>
    \<not> map_has m (meta x ''sidebar_position'') \<and>
    (\<exists>m'. foldE (checkPosition pkg) (map_set m (meta x ''sidebar_position'') (p_source x)) xs = Inr m')"
    by (auto simp: seqE checkPosition_step)
  also have "\<dots> \<longleftrightarrow> \<not> map_has m (meta x ''sidebar_position'') \<and>
    distinct (map (\<lambda>pg. meta pg ''sidebar_position'') xs) \<and>
    (\<forall>pg\<in>set xs. \<not> map_has (map_set m (meta x ''sidebar_position'') (p_source x)) (meta pg ''sidebar_position''))"
    unfolding Cons.IH ..
  also have "\<dots> \<longleftrightarrow> distinct (map (\<lambda>pg. meta pg ''sidebar_position'') (x # xs)) \<and>
    (\<forall>pg\<in>set (x # xs). \<not> map_has m (meta pg ''sidebar_position''))"
    by (auto simp: jm.has_put image_iff)
  finally show ?case .
qed simp

text \<open>What the index of one collection must be.\<close>

definition index_spec :: "page list \<Rightarrow> string \<Rightarrow> page list \<Rightarrow> bool" where
  "index_spec pages name xs \<longleftrightarrow>
     distinct xs \<and> set xs = {pg \<in> set pages. p_collection pg = name} \<and>
     (name \<noteq> ''templates'' \<longrightarrow> sorted_wrt (<) (map (index_order name) xs))"

lemma checkCollection_iff:
  assumes "entries_ok sources entries" "\<forall>s pg. map_get sources s = Some pg \<longrightarrow> pg \<in> set pages"
    and "name \<in> set (map c_name collections)"
  shows "checkCollection ov pages entries name = Inr () \<longleftrightarrow>
    (\<exists>xs. map_get entries name = Some xs \<and> index_spec pages name xs)"
proof -
  have "map_get entries name \<noteq> None"
    using assms(1,3) jm.keys_get [of entries] by (auto simp: entries_ok_def)
  then obtain xs where xs: "map_get entries name = Some xs" by blast
  have sub: "distinct xs" "set xs \<subseteq> {pg \<in> set pages. p_collection pg = name}"
    using assms(1,2) xs unfolding entries_ok_def by blast+
  have "filter (\<lambda>pg. p_collection pg = name \<and> pg \<notin> set xs) pages = [] \<longleftrightarrow>
      {pg \<in> set pages. p_collection pg = name} \<subseteq> set xs"
    by (auto simp: filter_empty_conv)
  with sub xs show ?thesis
    by (auto simp: checkCollection_def Let_def seqE index_spec_def ascending_sorted)
qed

lemma validateIndex_iff:
  assumes "indexEntries pkg cwd fs root overview sources = Inr entries"
    and "\<forall>s pg. map_get sources s = Some pg \<longrightarrow> pg \<in> set (overview # rest)"
  shows "validateIndex pkg cwd fs root (overview # rest) sources = Inr () \<longleftrightarrow>
    distinct (map (\<lambda>pg. meta pg ''sidebar_position'')
      (filter (\<lambda>pg. p_collection pg = ''handbook'') (overview # rest))) \<and>
    (\<forall>c\<in>set collections. \<exists>xs. map_get entries (c_name c) = Some xs \<and>
       index_spec (overview # rest) (c_name c) xs)"
proof -
  have ok: "entries_ok sources entries" using assms(1) by (rule indexEntries_ok)
  let ?hb = "filter (\<lambda>pg. p_collection pg = ''handbook'') (overview # rest)"
  have pos: "(\<exists>m'. foldE (checkPosition pkg) [] ?hb = Inr m') \<longleftrightarrow>
      distinct (map (\<lambda>pg. meta pg ''sidebar_position'') ?hb)"
    by (simp add: checkPositions_iff)
  have cols: "foldE (\<lambda>_ c. checkCollection (p_source overview) (overview # rest) entries (c_name c)) () collections = Inr () \<longleftrightarrow>
      (\<forall>c\<in>set collections. \<exists>xs. map_get entries (c_name c) = Some xs \<and>
         index_spec (overview # rest) (c_name c) xs)"
    using checkCollection_iff [OF ok assms(2)] by (auto simp: foldE_unit)
  have "validateIndex pkg cwd fs root (overview # rest) sources = Inr () \<longleftrightarrow>
      (\<exists>m'. foldE (checkPosition pkg) [] ?hb = Inr m') \<and>
      foldE (\<lambda>_ c. checkCollection (p_source overview) (overview # rest) entries (c_name c)) () collections = Inr ()"
    by (simp only: validateIndex_def list.case assms(1) bindE_simps bindE_Inr) blast
  then show ?thesis by (simp only: pos cols)
qed

end
