(* ===== verification/DocLoad.thy ===== *)
theory DocLoad
  imports DocIndex
begin

text \<open>
  \<open>loadDocumentation\<close>: reads the overview and every page of the collections, validates them
  and returns the bundle that rendering works on. \<open>bundle_spec\<close> collects what a loaded bundle
  satisfies; rendering relies on it.
\<close>

record doc_bundle =
  b_root :: string
  b_pages :: "page list"
  b_ids :: ids
  b_sources :: sources

definition readOverview :: "packages \<Rightarrow> string \<Rightarrow> fs \<Rightarrow> string \<Rightarrow> doc_error + page" where
  "readOverview pkg cwd fs root = readPage pkg cwd fs root ''docs/README.md'' ''index.md'' ''overview''"

definition collectionFiles :: "packages \<Rightarrow> string \<Rightarrow> fs \<Rightarrow> string \<Rightarrow> string \<Rightarrow> string list" where
  "collectionFiles pkg cwd fs root name =
     js_sort (glob_md pkg fs (resolve_segs cwd [path_join [root, ''docs'', name]]))"

definition readCollection :: "packages \<Rightarrow> string \<Rightarrow> fs \<Rightarrow> string \<Rightarrow> string \<Rightarrow> doc_error + page list" where
  "readCollection pkg cwd fs root name =
     mapE (\<lambda>file. readPage pkg cwd fs root (''docs/'' @ name @ ''/'' @ file) (name @ ''/'' @ file) name)
       (collectionFiles pkg cwd fs root name)"

definition readPages :: "packages \<Rightarrow> string \<Rightarrow> fs \<Rightarrow> string \<Rightarrow> doc_error + page list" where
  "readPages pkg cwd fs root =
     bindE (readOverview pkg cwd fs root) (\<lambda>overview.
     foldE (\<lambda>pages c. bindE (readCollection pkg cwd fs root (c_name c)) (\<lambda>ps. Inr (pages @ ps)))
       [overview] collections)"

definition link_types :: "string list" where
  "link_types = [''link'', ''image'', ''definition'']"

definition validateLinks :: "packages \<Rightarrow> string \<Rightarrow> fs \<Rightarrow> string \<Rightarrow> page \<Rightarrow> doc_error + unit" where
  "validateLinks pkg cwd fs root pg =
     foldE (\<lambda>_ n. bindE (localTarget cwd fs root pg (md_url n)) (\<lambda>_. Inr ())) ()
       (visit_nodes pkg (p_tree pg) link_types)"

definition validatePage ::
    "packages \<Rightarrow> string \<Rightarrow> fs \<Rightarrow> string \<Rightarrow> ids \<times> sources \<Rightarrow> page \<Rightarrow> doc_error + ids \<times> sources" where
  "validatePage pkg cwd fs root st pg =
     (case st of (ids, sources) \<Rightarrow>
        bindE (validateMetadata ids pg) (\<lambda>ids'.
        let sources' = map_set sources (p_source pg) pg in
        bindE (validateLinks pkg cwd fs root pg) (\<lambda>_. Inr (ids', sources'))))"

definition loadDocumentation :: "packages \<Rightarrow> string \<Rightarrow> fs \<Rightarrow> string \<Rightarrow> doc_error + doc_bundle" where
  "loadDocumentation pkg cwd fs root =
     bindE (readPages pkg cwd fs root) (\<lambda>pages.
     bindE (foldE (validatePage pkg cwd fs root) ([], []) pages) (\<lambda>(ids, sources).
     bindE (validateReferences pkg pages ids) (\<lambda>_.
     bindE (validateIndex pkg cwd fs root pages sources) (\<lambda>_.
     Inr \<lparr>b_root = root, b_pages = pages, b_ids = ids, b_sources = sources\<rparr>))))"

section \<open>Validated pages\<close>

definition links_ok :: "packages \<Rightarrow> string \<Rightarrow> fs \<Rightarrow> string \<Rightarrow> page \<Rightarrow> bool" where
  "links_ok pkg cwd fs root pg \<longleftrightarrow>
     (\<forall>n\<in>set (visit_nodes pkg (p_tree pg) link_types). \<exists>t. localTarget cwd fs root pg (md_url n) = Inr t)"

lemma validateLinks_iff: "validateLinks pkg cwd fs root pg = Inr u \<longleftrightarrow> links_ok pkg cwd fs root pg"
  by (simp add: validateLinks_def links_ok_def foldE_unit seqE)

definition sources_of :: "sources \<Rightarrow> page list \<Rightarrow> bool" where
  "sources_of sources pages \<longleftrightarrow>
     (\<forall>s pg. map_get sources s = Some pg \<longrightarrow> pg \<in> set pages \<and> p_source pg = s) \<and>
     (\<forall>pg\<in>set pages. map_has sources (p_source pg))"

definition validated :: "packages \<Rightarrow> string \<Rightarrow> fs \<Rightarrow> string \<Rightarrow> page list \<Rightarrow> ids \<times> sources \<Rightarrow> bool" where
  "validated pkg cwd fs root pages st \<longleftrightarrow>
     ids_of (fst st) pages \<and> distinct (map page_id pages) \<and> sources_of (snd st) pages \<and>
     (\<forall>pg\<in>set pages. links_ok pkg cwd fs root pg)"

lemma ids_of_get: "ids_of ids pages \<Longrightarrow> q \<in> set pages \<Longrightarrow> map_get ids (page_id q) = Some q"
  by (simp add: ids_of_def)

lemma ids_of_spec: "ids_of ids pages \<Longrightarrow> q \<in> set pages \<Longrightarrow> page_spec q"
  by (simp add: ids_of_def)

lemma ids_of_mem: "ids_of ids pages \<Longrightarrow> map_get ids i = Some q \<Longrightarrow> q \<in> set pages \<and> page_id q = i"
  unfolding ids_of_def by blast

lemma ids_of_snoc:
  assumes "\<And>q. q \<in> set past \<Longrightarrow> page_id pg \<noteq> page_id q" "ids_of ids past" "page_spec pg"
  shows "ids_of (map_set ids (page_id pg) pg) (past @ [pg])"
  unfolding ids_of_def
proof (intro conjI ballI allI impI)
  fix q assume "q \<in> set (past @ [pg])"
  then consider "q = pg" | "q \<in> set past" by auto
  then show "page_spec q" "map_get (map_set ids (page_id pg) pg) (page_id q) = Some q"
    using assms(1) [of q] assms(3) ids_of_get [OF assms(2)] ids_of_spec [OF assms(2)]
    by (cases; simp add: jm.get_put)+
next
  fix i q assume "map_get (map_set ids (page_id pg) pg) i = Some q"
  then show "q \<in> set (past @ [pg])" "page_id q = i"
    using ids_of_mem [OF assms(2), of i q] by (auto simp: jm.get_put split: if_splits)
qed

lemma sources_of_snoc:
  assumes "sources_of sources past"
  shows "sources_of (map_set sources (p_source pg) pg) (past @ [pg])"
  unfolding sources_of_def
proof (intro conjI ballI allI impI)
  fix s q assume "map_get (map_set sources (p_source pg) pg) s = Some q"
  then show "q \<in> set (past @ [pg])" "p_source q = s"
    using assms by (auto simp: jm.get_put sources_of_def split: if_splits)
next
  fix q assume "q \<in> set (past @ [pg])"
  then show "map_has (map_set sources (p_source pg) pg) (p_source q)"
    using assms by (auto simp: jm.has_put sources_of_def)
qed

lemma validatePage_validated:
  assumes inv: "validated pkg cwd fs root past st"
    and step: "validatePage pkg cwd fs root st pg = Inr st'"
  shows "validated pkg cwd fs root (past @ [pg]) st'"
proof -
  obtain ids sources where st: "st = (ids, sources)" by force
  from step have spec: "page_spec pg" and fresh: "\<not> map_has ids (page_id pg)"
    and links: "links_ok pkg cwd fs root pg"
    and st': "st' = (map_set ids (page_id pg) pg, map_set sources (p_source pg) pg)"
    by (auto simp: validatePage_def st seqE validateMetadata_iff validateLinks_iff Let_def)
  have idso: "ids_of ids past" using inv by (simp add: validated_def st)
  have "page_id pg \<noteq> page_id q" if "q \<in> set past" for q
    using ids_of_get [OF idso that] fresh by (auto simp: map_has_def)
  moreover from this have "ids_of (map_set ids (page_id pg) pg) (past @ [pg])"
    using idso spec by (intro ids_of_snoc) blast+
  moreover have "sources_of (map_set sources (p_source pg) pg) (past @ [pg])"
    using inv by (intro sources_of_snoc) (simp add: validated_def st)
  ultimately show ?thesis
    using inv links by (auto simp: validated_def st st')
qed

interpretation page_loop: validating_loop "validatePage pkg cwd fs root" "validated pkg cwd fs root"
  for pkg cwd fs root
  by unfold_locales (rule validatePage_validated)

lemma validated_Nil: "validated pkg cwd fs root [] ([], [])"
  by (simp add: validated_def ids_of_def sources_of_def)

section \<open>Where pages come from\<close>

text \<open>\<open>origin source target name\<close>: a source path with its target and collection.\<close>

definition origin :: "string \<Rightarrow> string \<Rightarrow> string \<Rightarrow> bool" where
  "origin source target name \<longleftrightarrow>
     source = ''docs/README.md'' \<and> target = ''index.md'' \<and> name = ''overview'' \<or>
     name \<in> set (map c_name collections) \<and>
     (\<exists>file. source = ''docs/'' @ name @ ''/'' @ file \<and> target = name @ ''/'' @ file)"

definition page_origin :: "packages \<Rightarrow> string \<Rightarrow> fs \<Rightarrow> string \<Rightarrow> page \<Rightarrow> bool" where
  "page_origin pkg cwd fs root pg \<longleftrightarrow>
     origin (p_source pg) (p_target pg) (p_collection pg) \<and>
     readPage pkg cwd fs root (p_source pg) (p_target pg) (p_collection pg) = Inr pg \<and>
     (p_collection pg = ''overview'' \<or>
      (\<exists>file\<in>set (collectionFiles pkg cwd fs root (p_collection pg)). p_target pg = p_collection pg @ ''/'' @ file))"

lemma readPage_fields:
  "readPage pkg cwd fs root s t c = Inr pg \<Longrightarrow> p_source pg = s \<and> p_target pg = t \<and> p_collection pg = c"
  by (auto simp: readPage_def seqE Let_def)

lemma names_no_slash: "name \<in> set (map c_name collections) \<Longrightarrow> CHR ''/'' \<notin> set name \<and> name \<noteq> []"
  by (auto simp: collections_def)

lemma origin_functional:
  assumes "origin s t c" "origin s t' c'"
  shows "t = t' \<and> c = c'"
proof -
  have split: "split_on CHR ''/'' (n @ ''/'' @ f) = n # split_on CHR ''/'' f"
    if "n \<in> set (map c_name collections)" for n f
    using names_no_slash [OF that] by (simp add: split_on_append)
  have "length (split_on CHR ''/'' (n @ ''/'' @ f)) \<ge> 2" if "n \<in> set (map c_name collections)" for n f
    unfolding split [OF that] by (cases "split_on CHR ''/'' f") simp_all
  moreover have "length (split_on CHR ''/'' ''README.md'') = 1" by simp
  ultimately have readme: "''README.md'' \<noteq> n @ ''/'' @ f" if "n \<in> set (map c_name collections)" for n f
    using that by (metis Suc_1 not_less_eq_eq order_refl)
  have inj: "n = n'" if "n @ ''/'' @ f = n' @ ''/'' @ f'" "n \<in> set (map c_name collections)"
    "n' \<in> set (map c_name collections)" for n n' f f'
    using split [OF that(2), of f] split [OF that(3), of f'] that(1) by simp
  from assms(1) consider (ov) "s = ''docs/'' @ ''README.md''" "t = ''index.md''" "c = ''overview''"
    | (col) f where "c \<in> set (map c_name collections)" "s = ''docs/'' @ c @ ''/'' @ f" "t = c @ ''/'' @ f"
    unfolding origin_def by auto
  then show ?thesis
  proof cases
    case ov
    with assms(2) readme [of c'] show ?thesis unfolding origin_def by auto
  next
    case (col f)
    with assms(2) readme [of c f] obtain f' where "c' \<in> set (map c_name collections)"
      "c @ ''/'' @ f = c' @ ''/'' @ f'" "t' = c' @ ''/'' @ f'"
      unfolding origin_def by auto
    with col inj [of c f c' f'] show ?thesis by simp
  qed
qed

lemma page_origin_unique:
  assumes "page_origin pkg cwd fs root p" "page_origin pkg cwd fs root q" "p_source p = p_source q"
  shows "p = q"
proof -
  have "p_target p = p_target q \<and> p_collection p = p_collection q"
    using assms origin_functional unfolding page_origin_def by metis
  with assms show ?thesis unfolding page_origin_def by (metis sum.inject(2))
qed

lemma readCollection_origin:
  assumes "readCollection pkg cwd fs root name = Inr ps" "name \<in> set (map c_name collections)" "pg \<in> set ps"
  shows "page_origin pkg cwd fs root pg \<and> p_collection pg = name"
proof -
  obtain nm where f: "readPage pkg cwd fs root (''docs/'' @ name @ ''/'' @ nm) (name @ ''/'' @ nm) name = Inr pg"
    and nm: "nm \<in> set (collectionFiles pkg cwd fs root name)"
    using mapE_mem [OF assms(1) [unfolded readCollection_def] assms(3)] by blast
  note fields = readPage_fields [OF f]
  with f nm assms(2) show ?thesis
    unfolding page_origin_def origin_def by metis
qed

lemma readPages_origin:
  assumes "readPages pkg cwd fs root = Inr pages"
  shows "\<forall>pg\<in>set pages. page_origin pkg cwd fs root pg" and "pages \<noteq> []"
    and "p_collection (hd pages) = ''overview''"
proof -
  let ?inv = "\<lambda>pages. (\<forall>pg\<in>set pages. page_origin pkg cwd fs root pg) \<and> pages \<noteq> [] \<and>
    p_collection (hd pages) = ''overview''"
  obtain ov where ov: "readOverview pkg cwd fs root = Inr ov" and
    fold: "foldE (\<lambda>pages c. bindE (readCollection pkg cwd fs root (c_name c)) (\<lambda>ps. Inr (pages @ ps)))
      [ov] collections = Inr pages"
    using assms by (auto simp: readPages_def seqE)
  have step: "?inv res" if "foldE (\<lambda>pages c. bindE (readCollection pkg cwd fs root (c_name c)) (\<lambda>ps. Inr (pages @ ps)))
      acc cs = Inr res" "set cs \<subseteq> set collections" "?inv acc" for acc cs res
    using that
  proof (induction cs arbitrary: acc)
    case (Cons c cs)
    then obtain ps where ps: "readCollection pkg cwd fs root (c_name c) = Inr ps"
      and rest: "foldE (\<lambda>pages c. bindE (readCollection pkg cwd fs root (c_name c)) (\<lambda>ps. Inr (pages @ ps)))
        (acc @ ps) cs = Inr res"
      by (auto simp: seqE)
    have "c_name c \<in> set (map c_name collections)" using Cons.prems(2) by auto
    then have "\<forall>pg\<in>set ps. page_origin pkg cwd fs root pg" using readCollection_origin [OF ps] by blast
    with Cons.prems show ?case by (intro Cons.IH [OF rest]) auto
  qed auto
  have "?inv [ov]"
    using ov readPage_fields [OF ov [unfolded readOverview_def]]
    by (simp add: page_origin_def origin_def readOverview_def)
  from step [OF fold order_refl this]
  show "\<forall>pg\<in>set pages. page_origin pkg cwd fs root pg" "pages \<noteq> []" "p_collection (hd pages) = ''overview''"
    by auto
qed

text \<open>The pages are the overview and the files of the collections, in this order.\<close>

definition collection_sources :: "packages \<Rightarrow> string \<Rightarrow> fs \<Rightarrow> string \<Rightarrow> collection \<Rightarrow> string list" where
  "collection_sources pkg cwd fs root c =
     map (\<lambda>file. ''docs/'' @ c_name c @ ''/'' @ file) (collectionFiles pkg cwd fs root (c_name c))"

lemma mapE_map_eq:
  "mapE f xs = Inr ys \<Longrightarrow> (\<And>x y. f x = Inr y \<Longrightarrow> g y = h x) \<Longrightarrow> map g ys = map h xs"
  by (induction xs arbitrary: ys) (auto simp: seqE)

lemma readCollection_sources:
  "readCollection pkg cwd fs root (c_name c) = Inr ps \<Longrightarrow>
   map p_source ps = collection_sources pkg cwd fs root c"
  unfolding readCollection_def collection_sources_def
  by (erule mapE_map_eq) (simp add: readPage_fields)

lemma readPages_sources:
  assumes "readPages pkg cwd fs root = Inr pages"
  shows "map p_source pages =
    ''docs/README.md'' # concat (map (collection_sources pkg cwd fs root) collections)"
proof -
  obtain ov where ov: "readOverview pkg cwd fs root = Inr ov" and
    fold: "foldE (\<lambda>pages c. bindE (readCollection pkg cwd fs root (c_name c)) (\<lambda>ps. Inr (pages @ ps)))
      [ov] collections = Inr pages"
    using assms by (auto simp: readPages_def seqE)
  have step: "map p_source res = map p_source acc @ concat (map (collection_sources pkg cwd fs root) cs)"
    if "foldE (\<lambda>pages c. bindE (readCollection pkg cwd fs root (c_name c)) (\<lambda>ps. Inr (pages @ ps))) acc cs = Inr res"
    for acc cs res
    using that by (induction cs arbitrary: acc) (fastforce simp: seqE readCollection_sources)+
  have "p_source ov = ''docs/README.md''"
    using readPage_fields [OF ov [unfolded readOverview_def]] by simp
  with step [OF fold] show ?thesis by simp
qed

lemma loadDocumentation_pages:
  "loadDocumentation pkg cwd fs root = Inr b \<Longrightarrow> readPages pkg cwd fs root = Inr (b_pages b)"
  by (auto simp: loadDocumentation_def seqE)

section \<open>A loaded bundle\<close>

definition bundle_spec :: "packages \<Rightarrow> string \<Rightarrow> fs \<Rightarrow> doc_bundle \<Rightarrow> bool" where
  "bundle_spec pkg cwd fs b \<longleftrightarrow>
     b_pages b \<noteq> [] \<and> p_collection (hd (b_pages b)) = ''overview'' \<and>
     (\<forall>pg\<in>set (b_pages b). page_origin pkg cwd fs (b_root b) pg) \<and>
     validated pkg cwd fs (b_root b) (b_pages b) (b_ids b, b_sources b) \<and>
     (\<forall>pg\<in>set (b_pages b). (\<forall>i\<in>set (related_ids pg). map_has (b_ids b) i) \<and>
        (\<exists>n r. replacement_chain (b_ids b) pg n r)) \<and>
     distinct (map (\<lambda>pg. meta pg ''sidebar_position'')
       (filter (\<lambda>pg. p_collection pg = ''handbook'') (b_pages b))) \<and>
     (\<exists>entries. indexEntries pkg cwd fs (b_root b) (hd (b_pages b)) (b_sources b) = Inr entries \<and>
        (\<forall>c\<in>set collections. \<exists>xs. map_get entries (c_name c) = Some xs \<and>
           index_spec (b_pages b) (c_name c) xs))"

lemma loadDocumentation_spec:
  assumes "loadDocumentation pkg cwd fs root = Inr b"
  shows "bundle_spec pkg cwd fs b" and "b_root b = root"
proof -
  obtain pages ids sources where read: "readPages pkg cwd fs root = Inr pages"
    and loop: "foldE (validatePage pkg cwd fs root) ([], []) pages = Inr (ids, sources)"
    and refs: "validateReferences pkg pages ids = Inr ()"
    and index: "validateIndex pkg cwd fs root pages sources = Inr ()"
    and b: "b = \<lparr>b_root = root, b_pages = pages, b_ids = ids, b_sources = sources\<rparr>"
    using assms by (auto simp: loadDocumentation_def seqE)
  note origin = readPages_origin [OF read]
  have val: "validated pkg cwd fs root pages (ids, sources)"
    by (rule page_loop.loop_inv [OF validated_Nil loop])
  then have idso: "ids_of ids pages" and so: "\<forall>s pg. map_get sources s = Some pg \<longrightarrow> pg \<in> set pages"
    by (auto simp: validated_def sources_of_def)
  obtain ov rest where pages: "pages = ov # rest" using origin(2) by (cases pages) auto
  obtain entries where entries: "indexEntries pkg cwd fs root ov sources = Inr entries"
    using index by (auto simp: validateIndex_def pages seqE)
  note spec = index [unfolded pages validateIndex_iff [OF entries so [unfolded pages]]]
  show "bundle_spec pkg cwd fs b"
    unfolding bundle_spec_def b
    using origin val refs [unfolded validateReferences_iff [OF idso]] spec entries
    by (simp add: pages)
  show "b_root b = root" by (simp add: b)
qed

text \<open>In a loaded bundle the source path determines the page, and \<open>sources\<close> finds it.\<close>

lemma bundle_sources:
  assumes "bundle_spec pkg cwd fs b" "pg \<in> set (b_pages b)"
  shows "map_get (b_sources b) (p_source pg) = Some pg"
proof -
  from assms obtain q where q: "map_get (b_sources b) (p_source pg) = Some q"
    by (auto simp: bundle_spec_def validated_def sources_of_def map_has_def)
  then have "q \<in> set (b_pages b)" "p_source q = p_source pg"
    using assms(1) by (auto simp: bundle_spec_def validated_def sources_of_def)
  then have "q = pg" using assms by (auto simp: bundle_spec_def intro: page_origin_unique)
  with q show ?thesis by simp
qed

lemma bundle_distinct_sources:
  assumes "bundle_spec pkg cwd fs b"
  shows "distinct (map p_source (b_pages b))"
proof -
  have "distinct (b_pages b)"
    using assms by (auto simp: bundle_spec_def validated_def distinct_map)
  moreover have "inj_on p_source (set (b_pages b))"
    using assms by (auto simp: inj_on_def bundle_spec_def intro: page_origin_unique)
  ultimately show ?thesis by (simp add: distinct_map)
qed

text \<open>Following the replacements of a superseded decision ends at an accepted one.\<close>

lemma superseded_ends:
  assumes "bundle_spec pkg cwd fs b" "pg \<in> set (b_pages b)" "p_collection pg = ''decisions''"
    and "meta pg ''status'' = JStr ''superseded''"
  shows "\<exists>n r. replacement_chain (b_ids b) pg (Suc n) r \<and> r \<in> set (b_pages b) \<and>
    p_collection r = ''decisions'' \<and> meta r ''status'' = JStr ''accepted''"
proof -
  have truthy: "truthy (meta q ''superseded_by'')"
    if "q \<in> set (b_pages b)" "p_collection q = ''decisions''" "meta q ''status'' = JStr ''superseded''" for q
  proof -
    have "page_spec q" using assms(1) that(1) by (auto simp: bundle_spec_def validated_def ids_of_def)
    then have "\<exists>r. r \<noteq> [] \<and> meta q ''superseded_by'' = JStr r"
      using that(2,3) by (auto simp: page_spec_def record_spec_def statuses_def)
    then show ?thesis by auto
  qed
  obtain n r where ch: "replacement_chain (b_ids b) pg n r"
    using assms(1,2) by (auto simp: bundle_spec_def)
  note last = chain_last [OF ch]
  from ch truthy [OF assms(2-4)] have "n \<noteq> 0" by (cases rule: replacement_chain.cases) auto
  with last obtain i where r: "replacement_ok r" "map_get (b_ids b) i = Some r" by auto
  then have mem: "r \<in> set (b_pages b)" using assms(1) by (auto simp: bundle_spec_def validated_def ids_of_def)
  have "meta r ''status'' \<noteq> JStr ''superseded''"
    using truthy [OF mem] last r(1) by (auto simp: replacement_ok_def)
  with r mem ch \<open>n \<noteq> 0\<close> show ?thesis unfolding replacement_ok_def by (metis not0_implies_Suc)
qed

end
