(* ===== verification/DocRender.thy ===== *)
theory DocRender
  imports DocLoad
begin

text \<open>
  \<open>renderPage\<close>: rewrites the links of a page for the published site, adds the notices and the
  footer, and prints the page. Rewriting overwrites the \<open>url\<close> of nodes in place while the
  tree is visited.
\<close>

section \<open>Rewriting links\<close>

definition destination :: "doc_bundle \<Rightarrow> link_target \<Rightarrow> page option" where
  "destination b t =
     (case map_get (b_sources b) (t_source t) of
        Some d \<Rightarrow> Some d
      | None \<Rightarrow> if t_directory t then map_get (b_sources b) (t_source t @ ''/README.md'') else None)"

definition imageDefinitions :: "packages \<Rightarrow> mdnode \<Rightarrow> string option list" where
  "imageDefinitions pkg t = map md_identifier (visit_nodes pkg t [''imageReference''])"

text \<open>The new \<open>url\<close> of a visited node, \<open>None\<close> where it is left alone.\<close>

definition rewriteURL ::
    "string \<Rightarrow> fs \<Rightarrow> doc_bundle \<Rightarrow> page \<Rightarrow> build_context \<Rightarrow> string option list \<Rightarrow> string \<Rightarrow>
     string option \<Rightarrow> string option \<Rightarrow> doc_error + string option" where
  "rewriteURL cwd fs b pg context imageDefs ntype ident url =
     bindE (localTarget cwd fs (b_root b) pg url) (\<lambda>target.
     case target of
       None \<Rightarrow> Inr None
     | Some t \<Rightarrow>
         (case destination b t of
            Some d \<Rightarrow> Inr (Some (relative cwd (p_target pg) (p_target d) @ t_suffix t))
          | None \<Rightarrow>
              if ntype = ''image'' \<or> (ntype = ''definition'' \<and> ident \<in> set imageDefs) then
                (if t_directory t
                 then Inl (ImageDirectory (p_source pg) (case url of None \<Rightarrow> [] | Some u \<Rightarrow> u))
                 else Inr (Some (relative cwd (''pages/docs/'' @ p_target pg) (t_source t) @ t_suffix t)))
              else bindE (sourceURL context (t_source t) (t_directory t)) (\<lambda>u.
                Inr (Some (u @ t_suffix t)))))"

definition rewriteNode ::
    "string \<Rightarrow> fs \<Rightarrow> doc_bundle \<Rightarrow> page \<Rightarrow> build_context \<Rightarrow> string option list \<Rightarrow> mdnode \<Rightarrow> mdpos \<Rightarrow>
     doc_error + mdnode" where
  "rewriteNode cwd fs b pg context imageDefs tree pos =
     (case node_at tree pos of
        None \<Rightarrow> Inr tree
      | Some n \<Rightarrow>
          if md_type n \<notin> set link_types then Inr tree
          else bindE (rewriteURL cwd fs b pg context imageDefs (md_type n) (md_identifier n) (md_url n))
                 (\<lambda>r. Inr (case r of None \<Rightarrow> tree | Some u \<Rightarrow> put_url pos u tree)))"

definition rewriteLinks ::
    "packages \<Rightarrow> string \<Rightarrow> fs \<Rightarrow> doc_bundle \<Rightarrow> page \<Rightarrow> build_context \<Rightarrow> doc_error + mdnode" where
  "rewriteLinks pkg cwd fs b pg context =
     foldE (rewriteNode cwd fs b pg context (imageDefinitions pkg (p_tree pg))) (p_tree pg)
       (visit_order pkg (p_tree pg))"

section \<open>Notices, footer and text of a page\<close>

definition undefined_property :: "string \<Rightarrow> doc_error" where
  "undefined_property k =
     TypeError (''Cannot read properties of undefined (reading '' @ [CHR 0x27] @ k @ [CHR 0x27] @ '')'')"

definition replacedNotice :: "packages \<Rightarrow> string \<Rightarrow> doc_bundle \<Rightarrow> page \<Rightarrow> doc_error + string" where
  "replacedNotice pkg cwd b pg =
     (case lookup_id (b_ids b) (meta pg ''superseded_by'') of
        None \<Rightarrow> Inl (undefined_property ''metadata'')
      | Some nx \<Rightarrow>
          bindE (to_string (number_format pkg) (meta nx ''id'')) (\<lambda>i.
          Inr (''**Replaced by:** ['' @ i @ ''](''
               @ relative cwd (p_target pg) (p_target nx) @ '')'')))"

definition statusNotices :: "packages \<Rightarrow> string \<Rightarrow> doc_bundle \<Rightarrow> page \<Rightarrow> doc_error + string list" where
  "statusNotices pkg cwd b pg =
     (if p_collection pg = ''templates'' then
        Inr [''**Authoring resource.** Copy a template into the appropriate collection and replace its prompts.'']
      else if statuses (p_collection pg) = None then Inr []
      else
        bindE (to_string (number_format pkg) (meta pg ''status'')) (\<lambda>status.
        bindE (if truthy (meta pg ''date'') then
                 bindE (to_string (number_format pkg) (meta pg ''date'')) (\<lambda>d. Inr [''**Recorded:** '' @ d])
               else Inr []) (\<lambda>recorded.
        bindE (if truthy (meta pg ''superseded_by'') then
                 bindE (replacedNotice pkg cwd b pg) (\<lambda>r. Inr [r])
               else Inr []) (\<lambda>replaced.
        Inr ([''**Status:** '' @ status] @ recorded @ replaced)))))"

definition relatedLink :: "string \<Rightarrow> doc_bundle \<Rightarrow> page \<Rightarrow> string \<Rightarrow> doc_error + string" where
  "relatedLink cwd b pg i =
     (case map_get (b_ids b) i of
        None \<Rightarrow> Inl (undefined_property ''target'')
      | Some q \<Rightarrow> Inr (''['' @ i @ '']('' @ relative cwd (p_target pg) (p_target q) @ '')''))"

definition relatedNotices :: "string \<Rightarrow> doc_bundle \<Rightarrow> page \<Rightarrow> doc_error + string list" where
  "relatedNotices cwd b pg =
     (if related_ids pg = [] then Inr []
      else bindE (mapE (relatedLink cwd b pg) (related_ids pg)) (\<lambda>links.
        Inr [''**Related:** '' @ join '', '' links]))"

definition with_children :: "mdnode \<Rightarrow> mdnode list \<Rightarrow> mdnode" where
  "with_children n cs =
     MdNode (md_type n) (md_text n) (md_depth n) (md_url n) (md_identifier n) (md_other n) cs"

text \<open>\<open>children.splice(heading + 1, 0, ...notices)\<close>; without a heading, at the front.\<close>

definition insertNotices :: "mdnode \<Rightarrow> mdnode list \<Rightarrow> mdnode" where
  "insertNotices tree ns =
     (let at = (case find_index (\<lambda>n. md_type n = ''heading'' \<and> md_depth n = 1) (md_children tree) of
                  None \<Rightarrow> 0 | Some i \<Rightarrow> Suc i)
      in with_children tree (take at (md_children tree) @ ns @ drop at (md_children tree)))"

definition noticeText :: "string list \<Rightarrow> string" where
  "noticeText notices = join [newline, CHR ''>'', newline] (map (\<lambda>n. ''> '' @ n) notices)"

definition footerText :: "build_context \<Rightarrow> page \<Rightarrow> string \<Rightarrow> string" where
  "footerText context pg url =
     [newline] @ ''---'' @ [newline, newline] @ ''Source: ['' @ p_source pg @ ''](''
     @ url @ '')'' @ ''. Revision: '' @ [CHR 0x60] @ slice_to 12 (x_revision context) @ [CHR 0x60]
     @ (if x_dirty context then '' with local changes'' else '''') @ ''.'' @ [newline]"

definition dump_options :: jsval where
  "dump_options = JObj [(''lineWidth'', JNum (NumInt 120)), (''noRefs'', JBool True)]"

definition metadata_entries :: "jsval \<Rightarrow> (string \<times> jsval) list" where
  "metadata_entries v = (case v of JObj kvs \<Rightarrow> kvs | _ \<Rightarrow> [])"

definition renderPage ::
    "packages \<Rightarrow> string \<Rightarrow> fs \<Rightarrow> doc_bundle \<Rightarrow> build_context \<Rightarrow> page \<Rightarrow> doc_error + string" where
  "renderPage pkg cwd fs b context pg =
     bindE (rewriteLinks pkg cwd fs b pg context) (\<lambda>tree.
     bindE (statusNotices pkg cwd b pg) (\<lambda>ns.
     bindE (relatedNotices cwd b pg) (\<lambda>rs.
     let noticeTree = md_parse pkg (noticeText (ns @ rs));
         tree' = insertNotices tree (md_children noticeTree) in
     bindE (sourceURL context (p_source pg) False) (\<lambda>url.
     let footer = md_parse pkg (footerText context pg url);
         tree'' = with_children tree' (md_children tree' @ md_children footer) in
     Inr (''---'' @ [newline] @ yaml_dump pkg dump_options (metadata_entries (p_metadata pg)) @ ''---''
          @ [newline, newline] @ md_stringify pkg tree'')))))"

section \<open>The rewriting pass\<close>

text \<open>The pass is an instance of the rewriting passes of the tree interface.\<close>

definition visitor ::
    "string \<Rightarrow> fs \<Rightarrow> doc_bundle \<Rightarrow> page \<Rightarrow> build_context \<Rightarrow> string option list \<Rightarrow>
     (string \<times> string option \<times> nat \<times> string option \<times> (string \<times> jsval) list \<times> nat) \<Rightarrow>
     string option \<Rightarrow> doc_error + string option" where
  "visitor cwd fs b pg context imageDefs i url =
     (case i of (ntype, txt, depth, ident, other, n) \<Rightarrow>
        if ntype \<notin> set link_types then Inr None
        else rewriteURL cwd fs b pg context imageDefs ntype ident url)"

lemma rewriteNode_visit:
  "rewriteNode cwd fs b pg context imageDefs =
   mdtree.visit_one (visitor cwd fs b pg context imageDefs)"
  by (intro ext)
    (auto simp: rewriteNode_def mdtree.visit_one_def info_at_def url_at_def visitor_def split: option.splits)

text \<open>The documented order of \<open>unist-util-visit\<close>.\<close>

definition visits_preorder :: "packages \<Rightarrow> bool" where
  "visits_preorder pkg \<longleftrightarrow> (\<forall>t. visit_order pkg t = preorder t)"

lemma visit_nodes_preorder:
  assumes "visits_preorder pkg"
  shows "n \<in> set (visit_nodes pkg t types) \<longleftrightarrow> md_type n \<in> set types \<and> (\<exists>p. node_at t p = Some n)"
proof -
  have "n \<in> set (List.map_filter f xs) \<longleftrightarrow> (\<exists>x\<in>set xs. f x = Some n)" for f :: "mdpos \<Rightarrow> mdnode option" and xs
    by (induction xs) (auto simp: map_filter_simps split: option.splits)
  then have "n \<in> set (visit_nodes pkg t types) \<longleftrightarrow>
      md_type n \<in> set types \<and> (\<exists>p\<in>set (preorder t). node_at t p = Some n)"
    using assms by (auto simp: visit_nodes_def visits_preorder_def)
  also have "\<dots> \<longleftrightarrow> md_type n \<in> set types \<and> (\<exists>p. node_at t p = Some n)"
    using preorder_iff by auto
  finally show ?thesis .
qed

lemma rewriteLinks_node:
  assumes "visits_preorder pkg" "rewriteLinks pkg cwd fs b pg context = Inr tree"
    and "node_at (p_tree pg) pos = Some n"
  shows "info_at tree pos = info_at (p_tree pg) pos"
    and "\<exists>r. visitor cwd fs b pg context (imageDefinitions pkg (p_tree pg))
           (the (info_at (p_tree pg) pos)) (md_url n) = Inr r \<and>
         url_at tree pos = (case r of None \<Rightarrow> md_url n | Some u \<Rightarrow> Some u)"
proof -
  let ?f = "visitor cwd fs b pg context (imageDefinitions pkg (p_tree pg))"
  have pass: "foldE (mdtree.visit_one ?f) (p_tree pg) (preorder (p_tree pg)) = Inr tree"
    using assms(1,2) by (simp add: rewriteLinks_def rewriteNode_visit visits_preorder_def)
  show "info_at tree pos = info_at (p_tree pg) pos" using mdtree.pass_info [OF pass] .
  have "pos \<in> set (preorder (p_tree pg))" using assms(3) by (simp add: preorder_iff)
  moreover obtain i where i: "info_at (p_tree pg) pos = Some i" using assms(3) by (simp add: info_at_def)
  moreover have u: "url_at (p_tree pg) pos = md_url n" using assms(3) by (simp add: url_at_def)
  ultimately show "\<exists>r. ?f (the (info_at (p_tree pg) pos)) (md_url n) = Inr r \<and>
      url_at tree pos = (case r of None \<Rightarrow> md_url n | Some u \<Rightarrow> Some u)"
    using mdtree.pass_url [OF pass distinct_preorder, of pos i, unfolded u] by (simp add: i)
qed

section \<open>What can fail\<close>

lemma info_at_Some: "info_at t p = Some i \<Longrightarrow> \<exists>n. node_at t p = Some n \<and> fst i = md_type n \<and> url_at t p = md_url n"
  by (auto simp: info_at_def url_at_def)

text \<open>A node that gives an image its address: an image, or a definition some image refers to.\<close>

definition image_address :: "mdnode \<Rightarrow> mdnode \<Rightarrow> bool" where
  "image_address tree n \<longleftrightarrow>
     md_type n = ''image'' \<or>
     md_type n = ''definition'' \<and>
     (\<exists>pos m. node_at tree pos = Some m \<and> md_type m = ''imageReference'' \<and> md_identifier m = md_identifier n)"

text \<open>An image whose address \<open>u\<close> resolves to a directory that no page of the documentation stands for.\<close>

definition directory_image :: "string \<Rightarrow> fs \<Rightarrow> doc_bundle \<Rightarrow> page \<Rightarrow> string \<Rightarrow> bool" where
  "directory_image cwd fs b pg u \<longleftrightarrow>
     (\<exists>pos n t. node_at (p_tree pg) pos = Some n \<and> md_url n = Some u \<and> image_address (p_tree pg) n \<and>
        localTarget cwd fs (b_root b) pg (Some u) = Inr (Some t) \<and> t_directory t \<and> destination b t = None)"

lemma rewriteURL_throws:
  assumes "rewriteURL cwd fs b pg context defs ntype ident url = Inl e"
  shows "localTarget cwd fs (b_root b) pg url = Inl e \<or>
    (\<exists>u t. url = Some u \<and> e = ImageDirectory (p_source pg) u \<and>
       localTarget cwd fs (b_root b) pg (Some u) = Inr (Some t) \<and> t_directory t \<and> destination b t = None \<and>
       (ntype = ''image'' \<or> ntype = ''definition'' \<and> ident \<in> set defs)) \<or>
    nonempty (x_repository context) = None \<and> e = NoRepository"
proof (cases "localTarget cwd fs (b_root b) pg url")
  case (Inl e')
  with assms show ?thesis by (simp add: rewriteURL_def)
next
  case (Inr r)
  show ?thesis
  proof (cases r)
    case (Some t)
    with Inr obtain u where u: "url = Some u" using localTarget_Some_local by blast
    show ?thesis
    proof (cases "destination b t")
      case None
      with Some assms Inr u show ?thesis
        by (cases "nonempty (x_repository context)")
          (auto simp: rewriteURL_def sourceURL_def Let_def split: if_splits)
    next
      case (Some d)
      with \<open>r = Some t\<close> assms Inr show ?thesis by (simp add: rewriteURL_def)
    qed
  qed (use assms Inr in \<open>simp add: rewriteURL_def\<close>)
qed

lemma imageDefinitions_iff:
  assumes "visits_preorder pkg"
  shows "i \<in> set (imageDefinitions pkg t) \<longleftrightarrow>
    (\<exists>pos m. node_at t pos = Some m \<and> md_type m = ''imageReference'' \<and> md_identifier m = i)"
proof -
  have "i \<in> set (imageDefinitions pkg t) \<longleftrightarrow> (\<exists>m\<in>set (visit_nodes pkg t [''imageReference'']). md_identifier m = i)"
    by (auto simp: imageDefinitions_def)
  then show ?thesis unfolding Bex_def visit_nodes_preorder [OF assms] list.set by blast
qed

lemma rewriteLinks_throws:
  assumes "visits_preorder pkg" "links_ok pkg cwd fs (b_root b) pg"
    and "rewriteLinks pkg cwd fs b pg context = Inl e"
  shows "(\<exists>u. e = ImageDirectory (p_source pg) u \<and> directory_image cwd fs b pg u) \<or>
    nonempty (x_repository context) = None \<and> e = NoRepository"
proof -
  let ?f = "visitor cwd fs b pg context (imageDefinitions pkg (p_tree pg))"
  have "foldE (mdtree.visit_one ?f) (p_tree pg) (preorder (p_tree pg)) = Inl e"
    using assms(1,3) by (simp add: rewriteLinks_def rewriteNode_visit visits_preorder_def)
  from mdtree.pass_throws [OF this distinct_preorder] obtain p i
    where i: "info_at (p_tree pg) p = Some i" "?f i (url_at (p_tree pg) p) = Inl e" by blast
  obtain n where n: "node_at (p_tree pg) p = Some n" using info_at_Some [OF i(1)] by blast
  then have ru: "md_type n \<in> set link_types"
    "rewriteURL cwd fs b pg context (imageDefinitions pkg (p_tree pg)) (md_type n) (md_identifier n) (md_url n) = Inl e"
    using i by (auto simp: info_at_def url_at_def visitor_def split: if_splits)
  have "n \<in> set (visit_nodes pkg (p_tree pg) link_types)"
    using n ru(1) visit_nodes_preorder [OF assms(1)] by blast
  then have "localTarget cwd fs (b_root b) pg (md_url n) \<noteq> Inl e"
    using assms(2) unfolding links_ok_def by force
  with rewriteURL_throws [OF ru(2)] n show ?thesis
    unfolding directory_image_def image_address_def imageDefinitions_iff [OF assms(1)] by blast
qed

lemma statuses_cases: "statuses c \<noteq> None \<longleftrightarrow> c = ''requirements'' \<or> c = ''decisions''"
  by (auto simp: statuses_def)

lemma record_status:
  assumes "page_spec pg" "statuses (p_collection pg) \<noteq> None"
  shows "\<exists>s. meta pg ''status'' = JStr s"
  using assms unfolding page_spec_def record_spec_def by fastforce

lemma decision_date:
  assumes "page_spec pg" "p_collection pg = ''decisions''"
  shows "\<exists>s. meta pg ''date'' = JStr s"
proof -
  have "statuses (p_collection pg) \<noteq> None" unfolding statuses_cases using assms(2) by blast
  then show ?thesis using assms unfolding page_spec_def record_spec_def date_spec_def by fastforce
qed

lemma replacedNotice_ok:
  assumes "replacement_chain (b_ids b) pg n r" "truthy (meta pg ''superseded_by'')"
    and "\<And>i q. map_get (b_ids b) i = Some q \<Longrightarrow> page_spec q \<and> page_id q = i"
  shows "\<exists>i q. meta pg ''superseded_by'' = JStr i \<and> map_get (b_ids b) i = Some q \<and>
    replacedNotice pkg cwd b pg =
      Inr (''**Replaced by:** ['' @ i @ '']('' @ relative cwd (p_target pg) (p_target q) @ '')'')"
  using assms(1,2)
proof (cases rule: replacement_chain.cases)
  case (chain_step i q n)
  then show ?thesis using assms(3) [of i q]
    by (simp add: replacedNotice_def lookup_id_def page_spec_id)
qed simp

lemma relatedNotices_ok:
  assumes "\<forall>i\<in>set (related_ids pg). map_has (b_ids b) i"
  shows "\<exists>ns. relatedNotices cwd b pg = Inr ns"
proof -
  have "mapE (relatedLink cwd b pg) (related_ids pg) =
      Inr (map (\<lambda>i. ''['' @ i @ '']('' @ relative cwd (p_target pg) (p_target (the (map_get (b_ids b) i))) @ '')'')
        (related_ids pg))"
    using assms by (intro mapE_Inr_map) (auto simp: relatedLink_def map_has_def)
  then show ?thesis by (simp add: relatedNotices_def)
qed

lemma statusNotices_throws:
  assumes "page_spec pg" "replacement_chain (b_ids b) pg n r"
    and "\<And>i q. map_get (b_ids b) i = Some q \<Longrightarrow> page_spec q \<and> page_id q = i"
    and "statusNotices pkg cwd b pg = Inl e"
  shows "p_collection pg = ''requirements'' \<and> to_string (number_format pkg) (meta pg ''date'') = Inl e"
proof -
  have st: "statuses (p_collection pg) \<noteq> None"
    using assms(4) by (auto simp: statusNotices_def split: if_splits)
  obtain s where s: "meta pg ''status'' = JStr s" using record_status [OF assms(1) st] by blast
  have rep: "\<exists>x. replacedNotice pkg cwd b pg = Inr x" if "truthy (meta pg ''superseded_by'')"
    using replacedNotice_ok [OF assms(2) that assms(3)] by blast
  have "to_string (number_format pkg) (meta pg ''date'') = Inl e"
    using assms(4) rep by (auto simp: statusNotices_def s seqE split: if_splits)
  moreover have "p_collection pg \<noteq> ''decisions''"
    using decision_date [OF assms(1)] calculation by auto
  ultimately show ?thesis using st [unfolded statuses_cases] by blast
qed

lemma bundle_page:
  assumes "bundle_spec pkg cwd fs b" "pg \<in> set (b_pages b)"
  shows "page_spec pg" "links_ok pkg cwd fs (b_root b) pg"
    and "\<forall>i\<in>set (related_ids pg). map_has (b_ids b) i" "\<exists>n r. replacement_chain (b_ids b) pg n r"
    and "\<And>i q. map_get (b_ids b) i = Some q \<Longrightarrow> page_spec q \<and> page_id q = i \<and> q \<in> set (b_pages b)"
    and "page_origin pkg cwd fs (b_root b) pg"
  using assms by (auto simp: bundle_spec_def validated_def ids_of_def)

lemma renderPage_throws:
  assumes "visits_preorder pkg" "bundle_spec pkg cwd fs b" "pg \<in> set (b_pages b)"
    and "renderPage pkg cwd fs b context pg = Inl e"
  shows "nonempty (x_repository context) = None \<and> e = NoRepository \<or>
    (\<exists>u. e = ImageDirectory (p_source pg) u \<and> directory_image cwd fs b pg u) \<or>
    p_collection pg = ''requirements'' \<and> to_string (number_format pkg) (meta pg ''date'') = Inl e"
proof -
  note pg = bundle_page [OF assms(2,3)]
  from pg(4) obtain n r where ch: "replacement_chain (b_ids b) pg n r" by blast
  have ids: "page_spec q \<and> page_id q = i" if "map_get (b_ids b) i = Some q" for i q using pg(5) [OF that] by blast
  from assms(4) consider "rewriteLinks pkg cwd fs b pg context = Inl e" | "statusNotices pkg cwd b pg = Inl e"
    | "relatedNotices cwd b pg = Inl e" | "sourceURL context (p_source pg) False = Inl e"
    by (auto simp: renderPage_def seqE Let_def)
  then show ?thesis
  proof cases
    case 1
    then show ?thesis using rewriteLinks_throws [OF assms(1) pg(2)] by blast
  next
    case 2
    then show ?thesis using statusNotices_throws [OF pg(1) ch ids] by blast
  next
    case 3
    then show ?thesis using relatedNotices_ok [OF pg(3)] by (metis Inl_Inr_False)
  next
    case 4
    then show ?thesis by (auto simp: sourceURL_def Let_def split: option.splits)
  qed
qed

section \<open>Published links\<close>

text \<open>
  What \<open>glob\<close> documents for \<open>globSync('**/*.md', {cwd, nodir: true})\<close>: distinct paths below \<open>cwd\<close>,
  of plain names, each the path of a file whose name ends in \<open>.md\<close>.
\<close>

definition glob_ok :: "packages \<Rightarrow> bool" where
  "glob_ok pkg \<longleftrightarrow>
     (\<forall>fs dir. distinct (glob_md pkg fs dir) \<and>
        (\<forall>f\<in>set (glob_md pkg fs dir).
           plain_path f \<and> suffix ''.md'' f \<and> is_file fs (dir @ segments f)))"

lemma collection_plain: "name \<in> set (map c_name collections) \<Longrightarrow> plain name"
  by (auto simp: collections_def plain_def)

lemma segments_name: "plain name \<Longrightarrow> segments (name @ CHR ''/'' # file) = name # segments file"
  by (simp add: segments_append) (simp add: segments_def split_on_id plain_def)

lemma plain_path_prepend: "plain name \<Longrightarrow> plain_path file \<Longrightarrow> plain_path (name @ ''/'' @ file)"
  by (simp add: plain_path_def segments_name)

lemma plain_path_single: "plain f \<Longrightarrow> plain_path f"
  by (simp add: plain_path_def segments_def split_on_id plain_def)

text \<open>A page is the overview or a file of its collection; all its paths are plain.\<close>

lemma page_origin_cases:
  assumes "glob_ok pkg" "page_origin pkg cwd fs root pg"
  obtains (overview) "p_source pg = ''docs/README.md''" "p_target pg = ''index.md''" "p_collection pg = ''overview''"
  | (collection) f where "p_collection pg \<in> set (map c_name collections)"
      "f \<in> set (glob_md pkg fs (resolve_segs cwd [path_join [root, ''docs'', p_collection pg]]))"
      "p_source pg = ''docs/'' @ p_target pg" "p_target pg = p_collection pg @ ''/'' @ f"
      "plain_path f" "suffix ''.md'' f"
proof (cases "p_collection pg = ''overview''")
  case True
  then have "p_collection pg \<notin> set (map c_name collections)" by (simp add: collections_def)
  with True assms(2) overview show thesis unfolding page_origin_def origin_def by blast
next
  case False
  with assms(2) obtain f where f: "f \<in> set (collectionFiles pkg cwd fs root (p_collection pg))"
    "p_target pg = p_collection pg @ ''/'' @ f"
    unfolding page_origin_def by blast
  from False assms(2) have "p_collection pg \<in> set (map c_name collections)" "p_source pg = ''docs/'' @ p_target pg"
    unfolding page_origin_def origin_def by auto
  moreover have g: "f \<in> set (glob_md pkg fs (resolve_segs cwd [path_join [root, ''docs'', p_collection pg]]))"
    using f(1) by (simp add: collectionFiles_def)
  moreover have "plain_path f" "suffix ''.md'' f" using assms(1) g unfolding glob_ok_def by blast+
  ultimately show thesis using collection f(2) by blast
qed

lemma target_plain:
  assumes "glob_ok pkg" "page_origin pkg cwd fs root pg"
  shows "plain_path (p_target pg)" "plain_path (p_source pg)"
proof -
  have docs: "plain ''docs''" "plain_path ''index.md''" "plain_path ''README.md''"
    by (simp_all add: plain_def plain_path_def segments_def)
  show "plain_path (p_target pg)"
    using assms by (cases rule: page_origin_cases) (simp_all only: docs collection_plain plain_path_prepend)
  with assms show "plain_path (p_source pg)"
  proof (cases rule: page_origin_cases)
    case overview
    then show ?thesis using plain_path_prepend [OF docs(1,3)] by simp
  next
    case (collection f)
    then show ?thesis using plain_path_prepend [OF docs(1) \<open>plain_path (p_target pg)\<close>] by simp
  qed
qed

text \<open>Where a link leads that \<open>renderPage\<close> rewrites.\<close>

lemma destination_page:
  assumes "bundle_spec pkg cwd fs b" "destination b t = Some d"
  shows "d \<in> set (b_pages b)" "p_source d = t_source t \<or> t_directory t \<and> p_source d = t_source t @ ''/README.md''"
  using assms
  by (auto simp: destination_def bundle_spec_def validated_def sources_of_def split: option.splits if_splits)

lemma rewriteURL_page:
  assumes "localTarget cwd fs (b_root b) pg url = Inr (Some t)" "destination b t = Some d"
  shows "rewriteURL cwd fs b pg context defs ntype ident url =
    Inr (Some (relative cwd (p_target pg) (p_target d) @ t_suffix t))"
  using assms by (simp add: rewriteURL_def)

lemma published_suffix:
  assumes "localTarget cwd fs root pg url = Inr (Some t)"
  shows "t_suffix t = [] \<or> \<not> path_char (hd (t_suffix t))" "\<not> has_line_terminator (t_suffix t)"
proof -
  obtain u where u: "local_url u" "t_suffix t = url_suffix u" using assms by (elim localTarget_inside) simp
  show "t_suffix t = [] \<or> \<not> path_char (hd (t_suffix t))" using url_suffix_mark [of u] u(2) by simp
  show "\<not> has_line_terminator (t_suffix t)" using u by (simp add: local_url_def)
qed

lemma rewriteURL_image:
  assumes "localTarget cwd fs (b_root b) pg url = Inr (Some t)" "destination b t = None"
    and "ntype = ''image'' \<or> ntype = ''definition'' \<and> ident \<in> set defs"
    and "rewriteURL cwd fs b pg context defs ntype ident url = Inr r"
  shows "\<not> t_directory t \<and> r = Some (relative cwd (''pages/docs/'' @ p_target pg) (t_source t) @ t_suffix t)"
  using assms by (auto simp: rewriteURL_def split: if_splits)

text \<open>A link below the root leads to a plain path of an existing file.\<close>

lemma target_below:
  assumes "localTarget cwd fs root pg url = Inr (Some t)" "\<not> t_directory t" "fs (resolve_segs cwd [root]) = Some FDir"
  shows "plain_path (t_source t)" "is_file fs (resolve_segs cwd [root] @ segments (t_source t))"
proof -
  obtain ss u where ss: "\<forall>s\<in>set ss. plain s" "fs (resolve_segs cwd [root] @ ss) \<noteq> None"
    "t = \<lparr>t_source = of_segs ss, t_suffix = url_suffix u,
          t_directory = (fs (resolve_segs cwd [root] @ ss) = Some FDir)\<rparr>"
    using assms(1) by (elim localTarget_inside)
  with assms(2,3) have "ss \<noteq> []" by auto
  with ss assms(2) show "plain_path (t_source t)" "is_file fs (resolve_segs cwd [root] @ segments (t_source t))"
    by (auto simp: plain_path_of_segs segments_of_segs plain_no_slash is_file_def split: fnode.splits)
qed

text \<open>The published address of an image, read from the generated page, is the image again.\<close>

lemma image_reads:
  assumes "plain_path (p_target pg)" "localTarget cwd fs root pg url = Inr (Some t)" "\<not> t_directory t"
    and "fs (resolve_segs cwd [root]) = Some FDir" "url_literal (t_source t)"
    and "fs' (resolve_segs cwd [root] @ segments (t_source t)) = fs (resolve_segs cwd [root] @ segments (t_source t))"
  shows "localTarget cwd fs' root (pg\<lparr>p_source := ''pages/docs/'' @ p_target pg\<rparr>)
      (Some (relative cwd (''pages/docs/'' @ p_target pg) (t_source t) @ t_suffix t)) = Inr (Some t)"
proof -
  have docs: "plain ''pages''" "plain ''docs''" by (simp_all add: plain_def)
  have src: "plain_path (''pages/docs/'' @ p_target pg)"
    using plain_path_prepend [OF docs(1) plain_path_prepend [OF docs(2) assms(1)]] by simp
  note below = target_below [OF assms(2-4)]
  obtain s where "fs (resolve_segs cwd [root] @ segments (t_source t)) = Some (FFile s)"
    using below(2) by (auto simp: is_file_def split: option.splits fnode.splits)
  with localTarget_reads_relative [OF src below(1) assms(5), of "pg\<lparr>p_source := ''pages/docs/'' @ p_target pg\<rparr>"
      "t_suffix t" fs' cwd root] assms(3,6) published_suffix [OF assms(2)]
  show ?thesis by (cases t) simp
qed

lemma visitor_url:
  assumes "visits_preorder pkg" "rewriteLinks pkg cwd fs b pg context = Inr tree"
    and "node_at (p_tree pg) pos = Some n" "md_type n \<in> set link_types"
  shows "\<exists>r. rewriteURL cwd fs b pg context (imageDefinitions pkg (p_tree pg)) (md_type n) (md_identifier n) (md_url n)
      = Inr r \<and> url_at tree pos = (case r of None \<Rightarrow> md_url n | Some u \<Rightarrow> Some u)"
  using rewriteLinks_node(2) [OF assms(1-3)] assms(3,4) by (simp add: info_at_def visitor_def)

section \<open>The address of a source\<close>

lemma sourceURL_parts:
  assumes "sourceURL context source directory = Inr u"
  obtains r where "x_repository context = Some r" "r \<noteq> []"
    "u = r @ ''/'' @ (if directory then ''tree'' else ''blob'') @ ''/'' @ encodeURIComponent (x_revision context) @
       ''/'' @ join ''/'' (map encodeURIComponent (segments source))"
  using assms by (auto simp: sourceURL_def nonempty_def segments_def Let_def split: option.splits if_splits)

section \<open>Properties\<close>

text \<open>
  C17: the address \<open>sourceURL\<close> gives for a file splits, after the repository and the kind of
  view, at its slashes into the encoded revision and one encoded segment per path segment, and
  decoding them gives the revision and the path back: no character of a path or a branch name
  is lost or changes the structure of the URL.
\<close>
theorem sourceURL_roundtrip:
  assumes "sourceURL context source directory = Inr u"
    and "list_all valid_utf8 (x_revision context # segments source)"
  shows "\<exists>r es. x_repository context = Some r \<and>
    u = r @ ''/'' @ (if directory then ''tree'' else ''blob'') @ ''/'' @ join ''/'' es \<and>
    (\<forall>e\<in>set es. CHR ''/'' \<notin> set e) \<and>
    map decodeURIComponent es = map Some (x_revision context # segments source)"
proof -
  let ?es = "map encodeURIComponent (x_revision context # segments source)"
  obtain r where "x_repository context = Some r"
    "u = r @ ''/'' @ (if directory then ''tree'' else ''blob'') @ ''/'' @ encodeURIComponent (x_revision context) @
       ''/'' @ join ''/'' (map encodeURIComponent (segments source))"
    using assms(1) by (rule sourceURL_parts)
  then have "x_repository context = Some r \<and>
      u = r @ ''/'' @ (if directory then ''tree'' else ''blob'') @ ''/'' @ join ''/'' ?es"
    by (simp add: join_Cons segments_def)
  moreover have "\<forall>e\<in>set ?es. CHR ''/'' \<notin> set e" using encode_no_slash by auto
  moreover have "map decodeURIComponent ?es = map Some (x_revision context # segments source)"
    using assms(2) by (simp add: list_all_iff decode_encode)
  ultimately show ?thesis by blast
qed

theorem sourceURL_roundtrip_witness:
  "\<exists>r es. Some ''https://h/r'' = Some r \<and>
    ''https://h/r/blob/a%2Fb/docs/a%20%23.md'' = r @ ''/'' @ ''blob'' @ ''/'' @ join ''/'' es \<and>
    (\<forall>e\<in>set es. CHR ''/'' \<notin> set e) \<and> map decodeURIComponent es = map Some [''a/b'', ''docs'', ''a #.md'']"
proof -
  let ?c = "\<lparr>x_repository = Some ''https://h/r'', x_revision = ''a/b'', x_dirty = False\<rparr>"
  have "sourceURL ?c ''docs/a #.md'' False = Inr ''https://h/r/blob/a%2Fb/docs/a%20%23.md''"
    "list_all valid_utf8 (x_revision ?c # segments ''docs/a #.md'')" "segments ''docs/a #.md'' = [''docs'', ''a #.md'']"
    by code_simp+
  with sourceURL_roundtrip [of ?c "''docs/a #.md''" False] show ?thesis by simp
qed

end
