(* ===== verification/WebUrl.thy ===== *)
theory WebUrl
  imports UriComponent
begin

text \<open>
  The global \<open>URL\<close> class as \<open>buildContext\<close> uses it: \<open>new URL(s)\<close> without a base, the properties
  \<open>protocol\<close>, \<open>username\<close>, \<open>password\<close>, \<open>hostname\<close>, \<open>pathname\<close> and \<open>href\<close>, following the basic URL
  parser of the URL standard. Host names (internationalised names, IPv4 and IPv6 addresses)
  are parsed by the argument \<open>host\<close>, which gets whether the scheme is special and returns the
  serialised host or fails.
\<close>

section \<open>Parsed URLs\<close>

text \<open>
  \<open>HostUrl\<close> is a URL with an authority. \<open>OtherUrl\<close> is a URL without one, or a \<open>file:\<close> URL: it has
  no credentials, and its protocol is all that is read of it.
\<close>

datatype url =
    HostUrl (u_scheme: string) (u_username: string) (u_password: string) (u_hostname: string)
      (u_port: "nat option") (u_path: "string list") (u_query: "string option") (u_fragment: "string option")
  | OtherUrl (u_scheme: string)

type_synonym host_parser = "bool \<Rightarrow> string \<Rightarrow> string option"

definition u_protocol :: "url \<Rightarrow> string" where
  "u_protocol u = u_scheme u @ '':''"

definition has_credentials :: "url \<Rightarrow> bool" where
  "has_credentials u =
     (case u of HostUrl sch user pass h port path q f \<Rightarrow> user \<noteq> [] \<or> pass \<noteq> [] | OtherUrl sch \<Rightarrow> False)"

definition path_text :: "string list \<Rightarrow> string" where
  "path_text ps = concat (map (\<lambda>s. ''/'' @ s) ps)"

definition optional_part :: "string \<Rightarrow> string option \<Rightarrow> string" where
  "optional_part mark p = (case p of None \<Rightarrow> [] | Some s \<Rightarrow> mark @ s)"

definition userinfo_text :: "string \<Rightarrow> string \<Rightarrow> string" where
  "userinfo_text user pass =
     (if user = [] \<and> pass = [] then []
      else user @ (if pass = [] then [] else '':'' @ pass) @ ''@'')"

text \<open>The URL serializer; only URLs with an authority are printed.\<close>

fun u_href :: "url \<Rightarrow> string" where
  "u_href (HostUrl sch user pass h port path q f) =
     sch @ ''://'' @ userinfo_text user pass @ h @
     (case port of None \<Rightarrow> [] | Some n \<Rightarrow> '':'' @ show_nat n) @
     path_text path @ optional_part ''?'' q @ optional_part ''#'' f"
| "u_href (OtherUrl sch) = sch @ '':''"

fun u_pathname :: "url \<Rightarrow> string" where
  "u_pathname (HostUrl sch user pass h port path q f) = path_text path"
| "u_pathname (OtherUrl sch) = []"

section \<open>Percent-encode sets\<close>

definition in_C0_set :: "char \<Rightarrow> bool" where
  "in_C0_set c = (code c < 32 \<or> 126 < code c)"

definition in_fragment_set :: "char \<Rightarrow> bool" where
  "in_fragment_set c = (in_C0_set c \<or> code c \<in> set [32, 34, 60, 62, 96])"

definition in_query_set :: "bool \<Rightarrow> char \<Rightarrow> bool" where
  "in_query_set special c =
     (in_C0_set c \<or> code c \<in> set [32, 34, 35, 60, 62] \<or> special \<and> code c = 39)"

definition in_path_set :: "char \<Rightarrow> bool" where
  "in_path_set c = (in_query_set False c \<or> code c \<in> set [63, 94, 96, 123, 125])"

definition in_userinfo_set :: "char \<Rightarrow> bool" where
  "in_userinfo_set c = (in_path_set c \<or> code c \<in> set [47, 58, 59, 61, 64, 91, 92, 93, 124])"

definition percent_encode :: "(char \<Rightarrow> bool) \<Rightarrow> string \<Rightarrow> string" where
  "percent_encode S s = concat (map (\<lambda>c. if S c then percent c else [c]) s)"

section \<open>Parsing\<close>

definition strip_controls :: "string \<Rightarrow> string" where
  "strip_controls s =
     filter (\<lambda>c. code c \<notin> set [9, 10, 13])
       (rev (dropWhile (\<lambda>c. code c \<le> 32) (rev (dropWhile (\<lambda>c. code c \<le> 32) s))))"

definition lower_ascii :: "char \<Rightarrow> char" where
  "lower_ascii c = (if is_upper c then of_code (code c + 32) else c)"

definition scheme_rest_char :: "char \<Rightarrow> bool" where
  "scheme_rest_char c = (is_alnum c \<or> c = CHR ''+'' \<or> c = CHR ''-'' \<or> c = CHR ''.'')"

text \<open>The scheme, in lower case, and what follows its colon.\<close>

definition split_scheme :: "string \<Rightarrow> (string \<times> string) option" where
  "split_scheme s =
     (case s of
        [] \<Rightarrow> None
      | c # r \<Rightarrow>
          if \<not> is_alpha c then None
          else case dropWhile scheme_rest_char r of
            [] \<Rightarrow> None
          | d # rest \<Rightarrow>
              if d = CHR '':'' then Some (map lower_ascii (c # takeWhile scheme_rest_char r), rest) else None)"

definition special_scheme :: "string \<Rightarrow> bool" where
  "special_scheme sch = (sch \<in> set [''ftp'', ''file'', ''http'', ''https'', ''ws'', ''wss''])"

definition default_port :: "string \<Rightarrow> nat option" where
  "default_port sch =
     (if sch = ''http'' \<or> sch = ''ws'' then Some 80
      else if sch = ''https'' \<or> sch = ''wss'' then Some 443
      else if sch = ''ftp'' then Some 21 else None)"

definition url_slash :: "bool \<Rightarrow> char \<Rightarrow> bool" where
  "url_slash special c = (c = CHR ''/'' \<or> special \<and> code c = 92)"

definition ends_authority :: "bool \<Rightarrow> char \<Rightarrow> bool" where
  "ends_authority special c = (url_slash special c \<or> c = CHR ''?'' \<or> c = CHR ''#'')"

text \<open>The text before and after the last \<open>@\<close>.\<close>

definition split_userinfo :: "string \<Rightarrow> string option \<times> string" where
  "split_userinfo s =
     (if CHR ''@'' \<in> set s
      then (Some (rev (tl (dropWhile (\<lambda>c. c \<noteq> CHR ''@'') (rev s)))),
            rev (takeWhile (\<lambda>c. c \<noteq> CHR ''@'') (rev s)))
      else (None, s))"

text \<open>The host and what follows the first colon outside brackets.\<close>

fun split_port :: "bool \<Rightarrow> string \<Rightarrow> string \<times> string option" where
  "split_port br [] = ([], None)"
| "split_port br (c # s) =
     (if c = CHR '':'' \<and> \<not> br then ([], Some s)
      else let (h, p) = split_port (if c = CHR ''['' then True else if c = CHR '']'' then False else br) s
           in (c # h, p))"

definition parse_port :: "string \<Rightarrow> string option \<Rightarrow> nat option option" where
  "parse_port sch p =
     (case p of
        None \<Rightarrow> Some None
      | Some d \<Rightarrow>
          if \<not> list_all is_digit d then None
          else if d = [] then Some None
          else if 65535 < parse_nat d then None
          else Some (if default_port sch = Some (parse_nat d) then None else Some (parse_nat d)))"

definition single_dot :: "string \<Rightarrow> bool" where
  "single_dot s = (map lower_ascii s \<in> set [''.'', ''%2e''])"

definition double_dot :: "string \<Rightarrow> bool" where
  "double_dot s = (map lower_ascii s \<in> set [''..'', ''.%2e'', ''%2e.'', ''%2e%2e''])"

fun url_segments :: "bool \<Rightarrow> string \<Rightarrow> string list" where
  "url_segments special [] = [[]]"
| "url_segments special (c # s) =
     (if url_slash special c then [] # url_segments special s
      else case url_segments special s of [] \<Rightarrow> [[c]] | p # ps \<Rightarrow> (c # p) # ps)"

fun url_path_fold :: "string list \<Rightarrow> string list \<Rightarrow> string list" where
  "url_path_fold acc [] = acc"
| "url_path_fold acc (s # ss) =
     (let last_one = (ss = []) in
      url_path_fold
        (if double_dot s then butlast acc @ (if last_one then [[]] else [])
         else if single_dot s then acc @ (if last_one then [[]] else [])
         else acc @ [percent_encode in_path_set s]) ss)"

text \<open>
  The path of a URL with an authority: a special URL always has one; otherwise an empty path
  text gives an empty path.
\<close>

definition parse_path :: "bool \<Rightarrow> string \<Rightarrow> string list" where
  "parse_path special t =
     (case t of
        [] \<Rightarrow> if special then [[]] else []
      | c # r \<Rightarrow> url_path_fold [] (url_segments special (if url_slash special c then r else t)))"

definition query_text :: "string \<Rightarrow> string option" where
  "query_text s =
     (case dropWhile (\<lambda>c. c \<noteq> CHR ''?'' \<and> c \<noteq> CHR ''#'') s of
        [] \<Rightarrow> None
      | c # r \<Rightarrow> if c = CHR ''?'' then Some (takeWhile (\<lambda>c. c \<noteq> CHR ''#'') r) else None)"

definition fragment_text :: "string \<Rightarrow> string option" where
  "fragment_text s = (case dropWhile (\<lambda>c. c \<noteq> CHR ''#'') s of [] \<Rightarrow> None | c # r \<Rightarrow> Some r)"

definition parse_authority :: "host_parser \<Rightarrow> string \<Rightarrow> string \<Rightarrow> url option" where
  "parse_authority host sch t =
     (let special = special_scheme sch;
          authority = takeWhile (\<lambda>c. \<not> ends_authority special c) t;
          rest = dropWhile (\<lambda>c. \<not> ends_authority special c) t;
          (userinfo, hostport) = split_userinfo authority;
          (h, port) = split_port False hostport;
          (user, pass) =
            (case userinfo of
               None \<Rightarrow> ([], [])
             | Some i \<Rightarrow> (takeWhile (\<lambda>c. c \<noteq> CHR '':'') i, drop 1 (dropWhile (\<lambda>c. c \<noteq> CHR '':'') i)))
      in if h = [] \<and> (special \<or> userinfo \<noteq> None \<and> hostport = [] \<or> port \<noteq> None) then None
         else case host special h of
           None \<Rightarrow> None
         | Some h' \<Rightarrow>
             (case parse_port sch port of
                None \<Rightarrow> None
              | Some n \<Rightarrow>
                  Some (HostUrl sch (percent_encode in_userinfo_set user) (percent_encode in_userinfo_set pass)
                          h' n
                          (parse_path special (takeWhile (\<lambda>c. c \<noteq> CHR ''?'' \<and> c \<noteq> CHR ''#'') rest))
                          (map_option (percent_encode (in_query_set special)) (query_text rest))
                          (map_option (percent_encode in_fragment_set) (fragment_text rest)))))"

text \<open>A \<open>file:\<close> URL is refused only for its host.\<close>

definition drive_letter :: "string \<Rightarrow> bool" where
  "drive_letter s = (length s = 2 \<and> is_alpha (s ! 0) \<and> (s ! 1 = CHR '':'' \<or> s ! 1 = CHR ''|''))"

definition file_host_ok :: "host_parser \<Rightarrow> string \<Rightarrow> bool" where
  "file_host_ok host t =
     (if 2 \<le> length t \<and> url_slash True (t ! 0) \<and> url_slash True (t ! 1)
      then let h = takeWhile (\<lambda>c. \<not> ends_authority True c) (drop 2 t)
           in h = [] \<or> drive_letter h \<or> host True h \<noteq> None
      else True)"

definition parse_url :: "host_parser \<Rightarrow> string \<Rightarrow> url option" where
  "parse_url host s =
     (case split_scheme (strip_controls s) of
        None \<Rightarrow> None
      | Some (sch, r) \<Rightarrow>
          if sch = ''file'' then (if file_host_ok host r then Some (OtherUrl sch) else None)
          else if special_scheme sch then parse_authority host sch (dropWhile (url_slash True) r)
          else if starts_with r ''//'' then parse_authority host sch (drop 2 r)
          else Some (OtherUrl sch))"

section \<open>Facts about parsed URLs\<close>

lemma url_path_fold_nonempty: "ss \<noteq> [] \<Longrightarrow> url_path_fold acc ss \<noteq> []"
proof (induction acc ss rule: url_path_fold.induct)
  case (2 acc s ss)
  show ?case
  proof (cases "ss = []")
    case True
    then show ?thesis by (simp add: Let_def)
  next
    case False
    with 2 show ?thesis by (simp add: Let_def)
  qed
qed simp

lemma url_segments_nonempty: "url_segments special s \<noteq> []"
  by (cases s) (auto split: list.splits)

lemma parse_path_special: "parse_path True t \<noteq> []"
  by (auto simp: parse_path_def url_path_fold_nonempty url_segments_nonempty split: list.splits)

lemma parse_authority_scheme: "parse_authority host sch t = Some u \<Longrightarrow> u_scheme u = sch"
  by (auto simp: parse_authority_def Let_def split: option.splits if_splits prod.splits)

text \<open>A parsed HTTP(S) URL has a host that the host parser produced, and a path.\<close>

lemma parse_url_http:
  assumes "parse_url host s = Some u" "u_scheme u = ''http'' \<or> u_scheme u = ''https''"
  obtains user pass hn h port ps path q f where
    "u = HostUrl (u_scheme u) user pass h port (ps # path) q f" "host True hn = Some h" "hn \<noteq> []"
proof -
  obtain sch r where sch: "split_scheme (strip_controls s) = Some (sch, r)"
    using assms(1) by (auto simp: parse_url_def split: option.splits)
  have sc: "u_scheme u = sch"
    using assms(1) sch by (auto simp: parse_url_def parse_authority_scheme split: if_splits)
  then have http: "sch = ''http'' \<or> sch = ''https''" using assms(2) by simp
  then have sp: "special_scheme sch" by (auto simp: special_scheme_def)
  from http have nf: "sch \<noteq> ''file''" by auto
  have pa: "parse_authority host sch (dropWhile (url_slash True) r) = Some u"
    using assms(1) unfolding parse_url_def sch option.case prod.case if_not_P [OF nf] if_P [OF sp] .
  then obtain user pass hn h port path q f where u: "u = HostUrl sch user pass h port path q f"
    "host True hn = Some h" "hn \<noteq> []" "path \<noteq> []"
    using sp by (auto simp: parse_authority_def Let_def parse_path_special split: option.splits if_splits prod.splits)
  then obtain ps rest where "path = ps # rest" by (cases path) auto
  with u sc have "u = HostUrl (u_scheme u) user pass h port (ps # rest) q f" by simp
  from that [OF this u(2,3)] show ?thesis .
qed

end
