(* ===== verification/DocContext.thy ===== *)
theory DocContext
  imports DocLinks WebUrl
begin

text \<open>
  \<open>buildContext\<close>: the web address of the repository, from the environment or the git remote,
  the revision and whether the working tree has changes. The result holds no credentials,
  whatever the environment and the remote are.
\<close>

section \<open>The platform\<close>

text \<open>
  The environment, the host parser of \<open>URL\<close> and the \<open>git\<close> executable: its standard output when
  run with some arguments in a directory, \<open>None\<close> if it cannot be run or fails.
\<close>

record platform =
  host_parse :: host_parser
  git_exec :: "string \<Rightarrow> string list \<Rightarrow> string option"
  env_var :: "string \<Rightarrow> string option"

definition git :: "platform \<Rightarrow> string \<Rightarrow> string list \<Rightarrow> string" where
  "git pf root args = (case git_exec pf root args of None \<Rightarrow> [] | Some out \<Rightarrow> trim out)"

section \<open>The remote\<close>

text \<open>\<open>/^https?:\/\//\<close>\<close>

definition http_url :: "string \<Rightarrow> bool" where
  "http_url s = (starts_with s ''http://'' \<or> starts_with s ''https://'')"

text \<open>
  \<open>/^(?:[^@]+@)?([^:]+):(.+)$/\<close>. \<open>host_and_path\<close> matches the part after the optional group; the
  group, if it matches, ends at the first \<open>@\<close>, and the match is retried without it.
\<close>

definition host_and_path :: "string \<Rightarrow> (string \<times> string) option" where
  "host_and_path s =
     (let h = takeWhile (\<lambda>c. c \<noteq> CHR '':'') s; p = drop 1 (dropWhile (\<lambda>c. c \<noteq> CHR '':'') s)
      in if h = [] \<or> p = [] \<or> has_line_terminator p then None else Some (h, p))"

definition after_user :: "string \<Rightarrow> string option" where
  "after_user s =
     (if takeWhile (\<lambda>c. c \<noteq> CHR ''@'') s = [] then None
      else case dropWhile (\<lambda>c. c \<noteq> CHR ''@'') s of [] \<Rightarrow> None | d # r \<Rightarrow> Some r)"

definition scp_remote :: "string \<Rightarrow> (string \<times> string) option" where
  "scp_remote s =
     (case (case after_user s of None \<Rightarrow> None | Some r \<Rightarrow> host_and_path r) of
        Some m \<Rightarrow> Some m
      | None \<Rightarrow> host_and_path s)"

definition invalid_url :: doc_error where
  "invalid_url = TypeError ''Invalid URL''"

definition remoteRepository :: "platform \<Rightarrow> string \<Rightarrow> doc_error + string option" where
  "remoteRepository pf origin =
     (if http_url origin then Inr (Some origin)
      else if starts_with origin ''ssh://'' then
        (case parse_url (host_parse pf) origin of
           None \<Rightarrow> Inl invalid_url
         | Some remote \<Rightarrow> Inr (Some (''https://'' @ u_hostname remote @ u_pathname remote)))
      else case scp_remote origin of
        None \<Rightarrow> Inr None
      | Some (h, p) \<Rightarrow> Inr (if starts_with origin ''/'' then None else Some (''https://'' @ h @ ''/'' @ p)))"

section \<open>buildContext\<close>

definition or_else :: "string option \<Rightarrow> string \<Rightarrow> string" where
  "or_else v d = (case nonempty v of None \<Rightarrow> d | Some s \<Rightarrow> s)"

definition environmentRepository :: "platform \<Rightarrow> string option" where
  "environmentRepository pf =
     (case nonempty (env_var pf ''DOCS_REPOSITORY_URL'') of
        Some r \<Rightarrow> Some r
      | None \<Rightarrow>
          (case nonempty (env_var pf ''GITHUB_REPOSITORY'') of
             None \<Rightarrow> env_var pf ''DOCS_REPOSITORY_URL''
           | Some g \<Rightarrow> Some (or_else (env_var pf ''GITHUB_SERVER_URL'') ''https://github.com'' @ ''/'' @ g)))"

definition strip_suffix :: "string \<Rightarrow> string \<Rightarrow> string" where
  "strip_suffix x s = (if suffix x s then take (length s - length x) s else s)"

definition repositoryURL :: "platform \<Rightarrow> string \<Rightarrow> doc_error + string" where
  "repositoryURL pf repository =
     (case parse_url (host_parse pf) repository of
        None \<Rightarrow> Inl invalid_url
      | Some url \<Rightarrow>
          if u_protocol url \<notin> set [''https:'', ''http:''] \<or> has_credentials url
          then Inl CredentialedRepository
          else Inr (strip_suffix ''.git'' (strip_suffix ''/'' (u_href url))))"

definition contextRepository :: "platform \<Rightarrow> string \<Rightarrow> doc_error + string option" where
  "contextRepository pf root =
     (let fromEnv = environmentRepository pf in
      bindE (case nonempty fromEnv of
               Some r \<Rightarrow> Inr (Some r)
             | None \<Rightarrow>
                 bindE (remoteRepository pf (git pf root [''config'', ''--get'', ''remote.origin.url'']))
                   (\<lambda>r. Inr (case r of None \<Rightarrow> fromEnv | Some x \<Rightarrow> Some x))) (\<lambda>repository.
      case nonempty repository of
        None \<Rightarrow> Inr repository
      | Some r \<Rightarrow> bindE (repositoryURL pf r) (\<lambda>u. Inr (Some u))))"

definition contextRevision :: "platform \<Rightarrow> string \<Rightarrow> string" where
  "contextRevision pf root =
     or_else (env_var pf ''DOCS_REVISION'') (or_else (Some (git pf root [''rev-parse'', ''HEAD''])) ''HEAD'')"

definition buildContext :: "platform \<Rightarrow> string \<Rightarrow> doc_error + build_context" where
  "buildContext pf root =
     bindE (contextRepository pf root) (\<lambda>repository.
     Inr \<lparr>x_repository = repository, x_revision = contextRevision pf root,
          x_dirty = (git pf root [''status'', ''--porcelain''] \<noteq> [])\<rparr>)"

section \<open>The repository address\<close>

lemma strip_suffix_prefix: "prefix (strip_suffix x s) s"
  by (simp add: strip_suffix_def take_is_prefix)

text \<open>A repository address: an HTTP(S) prefix, then text whose part before \<open>/\<close> has no \<open>@\<close>.\<close>

definition plain_address :: "string \<Rightarrow> bool" where
  "plain_address r \<longleftrightarrow>
     (\<exists>pre rest. pre \<in> set [''http://'', ''https://''] \<and> r = pre @ rest \<and>
        CHR ''@'' \<notin> set (takeWhile (\<lambda>c. c \<noteq> CHR ''/'') rest))"

text \<open>The host parser returns a host, with no delimiter of the authority in it.\<close>

definition host_clean :: "host_parser \<Rightarrow> bool" where
  "host_clean host \<longleftrightarrow>
     (\<forall>sp s h. host sp s = Some h \<longrightarrow> CHR ''@'' \<notin> set h \<and> CHR ''/'' \<notin> set h)"

lemma strip_suffix_append:
  assumes "pre \<noteq> []" "last pre \<notin> set x"
  shows "\<exists>t. prefix t s \<and> strip_suffix x (pre @ s) = pre @ t"
proof (cases "suffix x (pre @ s)")
  case True
  then obtain z where z: "pre @ s = z @ x" by (auto simp: suffix_def)
  then have "strip_suffix x (pre @ s) = z"
    using True by (simp add: strip_suffix_def)
  moreover have "\<exists>t. z = pre @ t"
  proof (rule ccontr)
    assume no: "\<nexists>t. z = pre @ t"
    from z obtain us where "pre = z @ us \<and> us @ s = x \<or> pre @ us = z \<and> s = us @ x"
      using append_eq_append_conv2 by metis
    with no have us: "pre = z @ us" "x = us @ s" by auto
    with no have "us \<noteq> []" by auto
    with us have "last pre \<in> set x" by (metis UnCI last_appendR last_in_set set_append)
    with assms(2) show False by simp
  qed
  moreover from calculation z obtain t where "z = pre @ t" "s = t @ x" by auto
  ultimately show ?thesis by (auto simp: prefix_def)
qed (auto simp: strip_suffix_def)

lemma strip_suffix_long:
  assumes "length x \<le> length s"
  shows "strip_suffix x (pre @ s) = pre @ strip_suffix x s"
proof -
  have "suffix x (pre @ s) \<longleftrightarrow> suffix x s"
    using assms suffix_length_suffix [of x "pre @ s" s] suffix_appendI [of x s pre] by (auto simp: suffix_def)
  with assms show ?thesis by (simp add: strip_suffix_def)
qed

lemma takeWhile_prefix:
  "prefix t s \<Longrightarrow> set (takeWhile P t) \<subseteq> set (takeWhile P s)"
  by (auto simp: prefix_def takeWhile_append split: if_splits dest: set_takeWhileD)

lemma show_nat_no_at: "CHR ''@'' \<notin> set (show_nat n)"
  using show_nat_digits [of n] by (auto simp: list_all_iff is_digit_def code_def)

lemma show_nat_no_slash: "CHR ''/'' \<notin> set (show_nat n)"
  using show_nat_digits [of n] by (auto simp: list_all_iff is_digit_def code_def)

lemma u_href_http:
  assumes "host_clean host" "parse_url host s = Some u" "u_protocol u \<in> set [''https:'', ''http:'']"
    and "\<not> has_credentials u"
  obtains pre authority rest where "pre \<in> set [''http://'', ''https://'']"
    "u_href u = pre @ authority @ ''/'' @ rest" "CHR ''@'' \<notin> set authority" "CHR ''/'' \<notin> set authority"
proof -
  have sch: "u_scheme u = ''http'' \<or> u_scheme u = ''https''" using assms(3) by (auto simp: u_protocol_def)
  obtain user pass hn h port ps path q f where u: "u = HostUrl (u_scheme u) user pass h port (ps # path) q f"
    and h: "host True hn = Some h"
    using parse_url_http [OF assms(2) sch] .
  define auth where "auth = h @ (case port of None \<Rightarrow> [] | Some n \<Rightarrow> '':'' @ show_nat n)"
  have cred: "user = [] \<and> pass = []" using assms(4) by (subst (asm) u) (simp add: has_credentials_def)
  have "u_href u = (u_scheme u @ ''://'') @ auth @ ''/'' @
      (ps @ path_text path @ optional_part ''?'' q @ optional_part ''#'' f)"
    by (subst u) (simp add: cred userinfo_text_def auth_def path_text_def)
  moreover have "CHR ''@'' \<notin> set h \<and> CHR ''/'' \<notin> set h" using assms(1) h unfolding host_clean_def by blast
  then have "CHR ''@'' \<notin> set auth" "CHR ''/'' \<notin> set auth"
    by (auto simp: auth_def show_nat_no_at show_nat_no_slash split: option.splits)
  moreover have "u_scheme u @ ''://'' \<in> set [''http://'', ''https://'']" using sch by auto
  ultimately show ?thesis using that by blast
qed

lemma plain_address_strip:
  assumes "pre \<in> set [''http://'', ''https://'']" "CHR ''@'' \<notin> set authority" "CHR ''/'' \<notin> set authority"
  shows "plain_address (strip_suffix ''.git'' (strip_suffix ''/'' (pre @ authority @ ''/'' @ rest)))"
proof -
  let ?s = "authority @ ''/'' @ rest"
  have "strip_suffix ''/'' (pre @ ?s) = pre @ strip_suffix ''/'' ?s"
    by (rule strip_suffix_long) simp
  then obtain t where t: "prefix t ?s" "strip_suffix ''/'' (pre @ ?s) = pre @ t" using strip_suffix_prefix by blast
  have "pre \<noteq> []" "last pre \<notin> set ''.git''" using assms(1) by auto
  then obtain t' where t': "prefix t' t" "strip_suffix ''.git'' (pre @ t) = pre @ t'"
    using strip_suffix_append by blast
  have "prefix t' ?s" using t t' by auto
  then have "set (takeWhile (\<lambda>c. c \<noteq> CHR ''/'') t') \<subseteq> set (takeWhile (\<lambda>c. c \<noteq> CHR ''/'') ?s)"
    by (rule takeWhile_prefix)
  also have "\<dots> \<subseteq> set authority" using assms(3) by (auto simp: takeWhile_append dest: set_takeWhileD)
  finally have "CHR ''@'' \<notin> set (takeWhile (\<lambda>c. c \<noteq> CHR ''/'') t')" using assms(2) by blast
  with assms(1) show ?thesis unfolding plain_address_def t(2) t'(2) by blast
qed

lemma repositoryURL_plain:
  assumes "host_clean (host_parse pf)" "repositoryURL pf r = Inr a"
  shows "plain_address a"
proof -
  obtain u where u: "parse_url (host_parse pf) r = Some u" "u_protocol u \<in> set [''https:'', ''http:'']"
    "\<not> has_credentials u" and a: "a = strip_suffix ''.git'' (strip_suffix ''/'' (u_href u))"
    using assms(2) by (auto simp: repositoryURL_def split: option.splits if_splits)
  from u_href_http [OF assms(1) u] show ?thesis unfolding a by (metis plain_address_strip)
qed

lemma contextRepository_plain:
  assumes "host_clean (host_parse pf)" "contextRepository pf root = Inr (Some r)" "r \<noteq> []"
  shows "plain_address r"
  using assms(2,3) repositoryURL_plain [OF assms(1)]
  by (auto simp: contextRepository_def Let_def seqE nonempty_def split: option.splits if_splits)

text \<open>Which source decides.\<close>

lemma contextRepository_from:
  assumes "repository \<noteq> []"
    and "environmentRepository pf = Some repository \<or>
         nonempty (environmentRepository pf) = None \<and>
         remoteRepository pf (git pf root [''config'', ''--get'', ''remote.origin.url'']) = Inr (Some repository)"
  shows "contextRepository pf root = bindE (repositoryURL pf repository) (\<lambda>u. Inr (Some u))"
  using assms by (auto simp: contextRepository_def Let_def nonempty_def split: option.splits if_splits)

section \<open>Properties\<close>

definition sample_platform :: platform where
  "sample_platform =
     \<lparr>host_parse = (\<lambda>sp s. if CHR ''@'' \<in> set s \<or> CHR ''/'' \<in> set s then None else Some s),
      git_exec = (\<lambda>root args. if args = [''config'', ''--get'', ''remote.origin.url'']
                             then Some ''git@forge.org:team/app.git'' else None),
      env_var = (\<lambda>k. if k = ''DOCS_REVISION'' then Some ''v1'' else None)\<rparr>"

lemma sample_host_clean: "host_clean (host_parse sample_platform)"
  by (simp add: host_clean_def sample_platform_def)

text \<open>
  C16: the repository address that \<open>buildContext\<close> returns is an HTTP(S) URL whose authority has no
  user information, whatever the environment variables and the git remote are (the host
  parser of the URL standard returns hosts without \<open>@\<close> and \<open>/\<close>).
\<close>
theorem buildContext_no_credentials:
  assumes "host_clean (host_parse pf)" "buildContext pf root = Inr context"
    and "x_repository context = Some r" "r \<noteq> []"
  shows "plain_address r"
  using assms contextRepository_plain [of pf root r] by (auto simp: buildContext_def seqE)

theorem buildContext_no_credentials_witness:
  "plain_address ''https://forge.org/team/app''"
proof -
  have "buildContext sample_platform ''/r'' =
      Inr \<lparr>x_repository = Some ''https://forge.org/team/app'', x_revision = ''v1'', x_dirty = False\<rparr>"
    by code_simp
  from buildContext_no_credentials [OF sample_host_clean this] show ?thesis by simp
qed

text \<open>
  C25: an explicit \<open>DOCS_REPOSITORY_URL\<close> decides alone: the result does not depend on the other
  environment variables, on the git remote or on the directory.
\<close>
theorem buildContext_explicit_url:
  assumes "env_var pf ''DOCS_REPOSITORY_URL'' = Some r" "r \<noteq> []"
    and "env_var pf' ''DOCS_REPOSITORY_URL'' = Some r" "host_parse pf' = host_parse pf"
  shows "map_sum id x_repository (buildContext pf root) = map_sum id x_repository (buildContext pf' root')"
proof -
  have env: "environmentRepository pf = Some r" "environmentRepository pf' = Some r"
    using assms by (simp_all add: environmentRepository_def nonempty_def)
  have "repositoryURL pf r = repositoryURL pf' r" using assms(4) by (simp add: repositoryURL_def)
  then have "contextRepository pf root = contextRepository pf' root'"
    using contextRepository_from [OF assms(2)] env by simp
  then show ?thesis by (cases "contextRepository pf' root'") (simp_all add: buildContext_def)
qed

theorem buildContext_explicit_url_witness:
  "map_sum id x_repository (buildContext (sample_platform\<lparr>env_var := [''DOCS_REPOSITORY_URL'' \<mapsto> ''https://h/a'']\<rparr>) ''/r'') =
   map_sum id x_repository (buildContext (sample_platform\<lparr>env_var :=
     [''DOCS_REPOSITORY_URL'' \<mapsto> ''https://h/a'', ''GITHUB_REPOSITORY'' \<mapsto> ''x/y''], git_exec := (\<lambda>_ _. None)\<rparr>) ''/q'')"
  by (rule buildContext_explicit_url [of _ "''https://h/a''"]) simp_all

text \<open>
  C26: a remote in the form \<open>user@host:path\<close> gives \<open>https://host/path\<close>: the user is dropped and
  nothing else is lost.
\<close>
theorem remoteRepository_scp:
  assumes "user \<noteq> []" "h \<noteq> []" "p \<noteq> []" "\<not> has_line_terminator p"
    and "set user \<inter> {CHR ''@'', CHR '':'', CHR ''/''} = {}" "CHR '':'' \<notin> set h"
  shows "remoteRepository pf (user @ ''@'' @ h @ '':'' @ p) = Inr (Some (''https://'' @ h @ ''/'' @ p))"
proof -
  let ?o = "user @ ''@'' @ h @ '':'' @ p"
  have scheme: "\<not> starts_with ?o (a @ '':'' @ b)" if "CHR ''@'' \<notin> set (a @ '':'')" for a b
  proof
    assume "starts_with ?o (a @ '':'' @ b)"
    then obtain z where z: "user @ CHR ''@'' # h @ '':'' @ p = a @ CHR '':'' # b @ z"
      by (auto simp: starts_with_prefix prefix_def)
    have "takeWhile (\<lambda>c. c \<noteq> CHR ''@'' \<and> c \<noteq> CHR '':'') (user @ CHR ''@'' # h @ '':'' @ p) = user"
      using assms(5) by (subst takeWhile_append2) auto
    moreover have "length (takeWhile (\<lambda>c. c \<noteq> CHR ''@'' \<and> c \<noteq> CHR '':'') (a @ CHR '':'' # b @ z)) \<le> length a"
      using that by (induction a) auto
    ultimately have "length user \<le> length a" using z by simp
    then have "CHR ''@'' \<in> set (a @ '':'')"
      using arg_cong [OF z, of "\<lambda>s. s ! length user"] by (cases "length user = length a") (auto simp: nth_append)
    with that show False by simp
  qed
  have no: "\<not> http_url ?o" "\<not> starts_with ?o ''ssh://''"
    using scheme [of "''http''" "''//''"] scheme [of "''https''" "''//''"] scheme [of "''ssh''" "''//''"]
    by (simp_all add: http_url_def)
  have slash: "\<not> starts_with ?o ''/''" using assms(1,5) by (cases user) (auto simp: starts_with_def)
  have "after_user ?o = Some (h @ '':'' @ p)"
    using assms(1,5) by (auto simp: after_user_def takeWhile_append dropWhile_append)
  moreover have "host_and_path (h @ '':'' @ p) = Some (h, p)"
    using assms(2,3,4,6) by (auto simp: host_and_path_def takeWhile_append dropWhile_append)
  ultimately have "scp_remote ?o = Some (h, p)" by (simp add: scp_remote_def)
  with no slash show ?thesis by (simp add: remoteRepository_def)
qed

theorem remoteRepository_scp_witness:
  "remoteRepository sample_platform ''git@forge.org:team/app.git'' = Inr (Some ''https://forge.org/team/app.git'')"
proof -
  have "\<not> has_line_terminator ''team/app.git''" by code_simp
  with remoteRepository_scp [of "''git''" "''forge.org''" "''team/app.git''" sample_platform] show ?thesis by simp
qed

end
