(* ===== verification/DocAssemble.thy ===== *)
theory DocAssemble
  imports DocRender DocContext
begin

text \<open>
  \<open>assemble\<close> and the command line: load, render every page, then replace the generated
  directory \<open>pages/docs\<close>. The writing phase is a list of file system operations computed from
  the rendered pages; it runs only after everything has been validated and rendered.
\<close>

section \<open>Rendered pages\<close>

record rendered =
  r_target :: string
  r_text :: string

definition renderAll ::
    "packages \<Rightarrow> string \<Rightarrow> fs \<Rightarrow> doc_bundle \<Rightarrow> build_context \<Rightarrow> doc_error + rendered list" where
  "renderAll pkg cwd fs b context =
     mapE (\<lambda>pg. bindE (renderPage pkg cwd fs b context pg) (\<lambda>text.
              Inr \<lparr>r_target = p_target pg, r_text = text\<rparr>)) (b_pages b)"

section \<open>The writing phase\<close>

definition outputDirectory :: "string \<Rightarrow> string" where
  "outputDirectory root = path_join [root, ''pages/docs'']"

definition pageOps :: "string \<Rightarrow> string \<Rightarrow> rendered \<Rightarrow> fs_op list" where
  "pageOps cwd output pg =
     (let target = path_join [output, r_target pg]
      in [Mkdir (resolve_segs cwd [path_dirname target]), Write (resolve_segs cwd [target]) (r_text pg)])"

definition emptyCollection :: "doc_bundle \<Rightarrow> collection \<Rightarrow> bool" where
  "emptyCollection b c =
     (statuses (c_name c) \<noteq> None \<and> \<not> list_ex (\<lambda>pg. p_collection pg = c_name c) (b_pages b))"

definition emptyText :: "packages \<Rightarrow> collection \<Rightarrow> string" where
  "emptyText pkg c =
     ''---'' @ [newline] @
     yaml_dump pkg JUndef [(''id'', JStr ''index''), (''title'', JStr (c_label c)),
                           (''slug'', JStr (''/category/'' @ c_name c))] @
     ''---'' @ [newline, newline] @ ''# '' @ c_label c @ [newline, newline] @
     ''No application '' @ c_name c @ '' are recorded yet. '' @
     ''Create a record using the [authoring templates](../index.md#templates).'' @ [newline]"

definition category :: "collection \<Rightarrow> nat \<Rightarrow> bool \<Rightarrow> jsval" where
  "category c index isEmpty =
     JObj [(''label'', JStr (c_label c)), (''position'', JNum (NumInt (int index + 2))), (''collapsed'', JBool True),
           (''link'', if isEmpty then JObj [(''type'', JStr ''doc''), (''id'', JStr ''index'')]
                    else JObj [(''type'', JStr ''generated-index''), (''description'', JStr (c_description c))])]"

definition collectionOps :: "packages \<Rightarrow> string \<Rightarrow> string \<Rightarrow> doc_bundle \<Rightarrow> nat \<times> collection \<Rightarrow> fs_op list" where
  "collectionOps pkg cwd output b ic =
     (case ic of (index, c) \<Rightarrow>
        let directory = path_join [output, c_name c]; isEmpty = emptyCollection b c in
        [Mkdir (resolve_segs cwd [directory])] @
        (if isEmpty then [Write (resolve_segs cwd [path_join [directory, ''index.md'']]) (emptyText pkg c)] else []) @
        [Write (resolve_segs cwd [path_join [directory, ''_category_.json'']])
           (json_stringify (number_format pkg) 0 (category c index isEmpty) @ [newline])])"

definition outputOps :: "packages \<Rightarrow> string \<Rightarrow> string \<Rightarrow> doc_bundle \<Rightarrow> rendered list \<Rightarrow> fs_op list" where
  "outputOps pkg cwd root b rs =
     (let output = outputDirectory root in
      [Rm (resolve_segs cwd [output]), Mkdir (resolve_segs cwd [output])] @
      concat (map (pageOps cwd output) rs) @
      concat (map (collectionOps pkg cwd output b) (enumerate 0 collections)))"

definition assemble ::
    "packages \<Rightarrow> string \<Rightarrow> fs \<Rightarrow> string \<Rightarrow> build_context \<Rightarrow> (doc_error + nat) \<times> fs" where
  "assemble pkg cwd fs root context =
     (case bindE (loadDocumentation pkg cwd fs root) (\<lambda>b.
           bindE (renderAll pkg cwd fs b context) (\<lambda>rs. Inr (b, rs))) of
        Inl e \<Rightarrow> (Inl e, fs)
      | Inr (b, rs) \<Rightarrow>
          (case run_ops fs_step fs (outputOps pkg cwd root b rs) of
             (Some e, fs') \<Rightarrow> (Inl e, fs')
           | (None, fs') \<Rightarrow> (Inr (length rs), fs')))"

text \<open>With the default argument \<open>context = buildContext(root)\<close>, evaluated first.\<close>

definition assembleDefault ::
    "packages \<Rightarrow> platform \<Rightarrow> string \<Rightarrow> fs \<Rightarrow> string \<Rightarrow> (doc_error + nat) \<times> fs" where
  "assembleDefault pkg pf cwd fs root =
     (case buildContext pf root of Inl e \<Rightarrow> (Inl e, fs) | Inr context \<Rightarrow> assemble pkg cwd fs root context)"

section \<open>The command line\<close>

definition rootDirectory :: "string \<Rightarrow> string \<Rightarrow> string" where
  "rootDirectory cwd script = path_resolve cwd [path_dirname script, ''..'']"

record outcome =
  o_stdout :: "string list"
  o_stderr :: "string list"
  o_exit :: nat
  o_fs :: fs

definition main :: "packages \<Rightarrow> platform \<Rightarrow> string \<Rightarrow> fs \<Rightarrow> string \<Rightarrow> string list \<Rightarrow> outcome" where
  "main pkg pf cwd fs script argv =
     (if 1 < length argv \<and> argv ! 1 \<noteq> [] \<and> path_resolve cwd [argv ! 1] = script then
        let root = rootDirectory cwd script;
            (result, fs') =
              (if ''--check'' \<in> set argv then
                 (bindE (loadDocumentation pkg cwd fs root) (\<lambda>b.
                    Inr (''Validated '' @ show_nat (length (b_pages b)) @
                         '' documentation sources, metadata, index, and local file links.'')), fs)
               else case assembleDefault pkg pf cwd fs root of (r, fs') \<Rightarrow>
                 (bindE r (\<lambda>n. Inr (''Assembled '' @ show_nat n @ '' documentation pages.'')), fs'))
        in (case result of
              Inl e \<Rightarrow> \<lparr>o_stdout = [], o_stderr = [error_message e], o_exit = 1, o_fs = fs'\<rparr>
            | Inr line \<Rightarrow> \<lparr>o_stdout = [line], o_stderr = [], o_exit = 0, o_fs = fs'\<rparr>)
      else \<lparr>o_stdout = [], o_stderr = [], o_exit = 0, o_fs = fs\<rparr>)"

section \<open>The generated files\<close>

definition out_segs :: "string \<Rightarrow> string \<Rightarrow> segs" where
  "out_segs cwd root = resolve_segs cwd [root] @ [''pages'', ''docs'']"

text \<open>The files of the generated directory, by their paths in it.\<close>

definition collection_files :: "packages \<Rightarrow> doc_bundle \<Rightarrow> nat \<times> collection \<Rightarrow> (segs \<times> string) list" where
  "collection_files pkg b ic =
     (case ic of (index, c) \<Rightarrow>
        (if emptyCollection b c then [([c_name c, ''index.md''], emptyText pkg c)] else []) @
        [([c_name c, ''_category_.json''],
          json_stringify (number_format pkg) 0 (category c index (emptyCollection b c)) @ [newline])])"

definition output_files :: "packages \<Rightarrow> doc_bundle \<Rightarrow> rendered list \<Rightarrow> (segs \<times> string) list" where
  "output_files pkg b rs =
     map (\<lambda>r. (segments (r_target r), r_text r)) rs @
     concat (map (collection_files pkg b) (enumerate 0 collections))"

lemma output_segs: "resolve_segs cwd [outputDirectory root] = out_segs cwd root"
proof -
  have "plain_path ''pages/docs''" "segments ''pages/docs'' = [''pages'', ''docs'']"
    by (simp_all add: plain_path_def segments_def plain_def)
  then show ?thesis by (simp only: outputDirectory_def join_plain out_segs_def)
qed

lemma pageOps_plain:
  assumes "plain_path (r_target r)"
  shows "pageOps cwd (outputDirectory root) r =
    [Mkdir (out_segs cwd root @ butlast (segments (r_target r))),
     Write (out_segs cwd root @ segments (r_target r)) (r_text r)]"
  by (simp add: pageOps_def join_plain [OF assms] dirname_join_plain [OF assms] output_segs Let_def)

lemma join_name: "plain f \<Longrightarrow> resolve_segs cwd [path_join [p, f]] = resolve_segs cwd [p] @ [f]"
  using join_plain [OF plain_path_single, of f cwd p] by (simp add: segments_def split_on_id plain_def)

lemma collectionOps_plain:
  assumes "plain (c_name c)"
  shows "collectionOps pkg cwd (outputDirectory root) b (i, c) =
    Mkdir (out_segs cwd root @ [c_name c]) #
    map (\<lambda>(q, t). Write (out_segs cwd root @ q) t) (collection_files pkg b (i, c))"
proof -
  have "plain ''index.md''" "plain ''_category_.json''" by (simp_all add: plain_def)
  with assms show ?thesis
    by (simp add: collectionOps_def collection_files_def join_name output_segs Let_def)
qed

lemma enumerate_collections: "(i, c) \<in> set (enumerate 0 collections) \<Longrightarrow> c \<in> set collections"
  by (auto simp: in_set_enumerate_eq)

text \<open>The operations after the removal write these files and make their directories.\<close>

definition write_ops :: "packages \<Rightarrow> string \<Rightarrow> string \<Rightarrow> doc_bundle \<Rightarrow> rendered list \<Rightarrow> fs_op list" where
  "write_ops pkg cwd root b rs = tl (outputOps pkg cwd root b rs)"

lemma outputOps_split: "outputOps pkg cwd root b rs = Rm (out_segs cwd root) # write_ops pkg cwd root b rs"
  by (simp add: outputOps_def write_ops_def Let_def output_segs)

lemma write_ops_eq:
  assumes "\<forall>r\<in>set rs. plain_path (r_target r)"
  shows "write_ops pkg cwd root b rs =
    Mkdir (out_segs cwd root) #
    concat (map (\<lambda>r. [Mkdir (out_segs cwd root @ butlast (segments (r_target r))),
       Write (out_segs cwd root @ segments (r_target r)) (r_text r)]) rs) @
    concat (map (\<lambda>(i, c). Mkdir (out_segs cwd root @ [c_name c]) #
       map (\<lambda>(q, t). Write (out_segs cwd root @ q) t) (collection_files pkg b (i, c))) (enumerate 0 collections))"
proof -
  have pages: "map (pageOps cwd (outputDirectory root)) rs =
      map (\<lambda>r. [Mkdir (out_segs cwd root @ butlast (segments (r_target r))),
       Write (out_segs cwd root @ segments (r_target r)) (r_text r)]) rs"
    using assms by (simp add: pageOps_plain)
  have colls: "map (collectionOps pkg cwd (outputDirectory root) b) (enumerate 0 collections) =
      map (\<lambda>(i, c). Mkdir (out_segs cwd root @ [c_name c]) #
       map (\<lambda>(q, t). Write (out_segs cwd root @ q) t) (collection_files pkg b (i, c))) (enumerate 0 collections)"
    using enumerate_collections by (auto simp: collectionOps_plain collection_plain)
  show ?thesis
    by (simp only: write_ops_def outputOps_def Let_def pages colls output_segs append.simps list.sel)
qed

lemma collection_files_butlast: "(q, t) \<in> set (collection_files pkg b (i, c)) \<Longrightarrow> q \<noteq> [] \<and> butlast q = [c_name c]"
  by (auto simp: collection_files_def split: if_splits)

lemma collection_files_nonempty: "\<exists>q t. (q, t) \<in> set (collection_files pkg b ic)"
  by (cases ic) (auto simp: collection_files_def)

lemma output_files_mem:
  "(q, t) \<in> set (output_files pkg b rs) \<longleftrightarrow>
   (\<exists>r\<in>set rs. q = segments (r_target r) \<and> t = r_text r) \<or>
   (\<exists>ic\<in>set (enumerate 0 collections). (q, t) \<in> set (collection_files pkg b ic))"
  by (auto simp: output_files_def)

lemma segments_nonempty [simp]: "segments p \<noteq> []"
  by (simp add: segments_def)

lemma output_files_nonempty: "(q, t) \<in> set (output_files pkg b rs) \<Longrightarrow> q \<noteq> []"
  by (auto simp: output_files_mem segments_nonempty [THEN not_sym] dest!: collection_files_butlast)

lemma write_image: "Write p t \<in> (\<lambda>(q, t). Write (o' @ q) t) ` S \<longleftrightarrow> (\<exists>q. p = o' @ q \<and> (q, t) \<in> S)"
  by force

lemma write_ops_writes:
  assumes "\<forall>r\<in>set rs. plain_path (r_target r)"
  shows "Write p t \<in> set (write_ops pkg cwd root b rs) \<longleftrightarrow>
    (\<exists>q. p = out_segs cwd root @ q \<and> (q, t) \<in> set (output_files pkg b rs))"
proof -
  have "Write p t \<in> set (write_ops pkg cwd root b rs) \<longleftrightarrow>
      (\<exists>r\<in>set rs. p = out_segs cwd root @ segments (r_target r) \<and> t = r_text r) \<or>
      (\<exists>(i, c)\<in>set (enumerate 0 collections).
        Write p t \<in> (\<lambda>(q, t). Write (out_segs cwd root @ q) t) ` set (collection_files pkg b (i, c)))"
    unfolding write_ops_eq [OF assms] by (simp add: split_beta)
  then show ?thesis unfolding write_image output_files_mem by auto
qed

lemma write_ops_mkdirs:
  assumes "\<forall>r\<in>set rs. plain_path (r_target r)" "Mkdir d \<in> set (write_ops pkg cwd root b rs)"
  shows "d = out_segs cwd root \<or>
    (\<exists>q t. d = out_segs cwd root @ butlast q \<and> (q, t) \<in> set (output_files pkg b rs))"
proof -
  from assms(2) consider "d = out_segs cwd root"
    | r where "r \<in> set rs" "d = out_segs cwd root @ butlast (segments (r_target r))"
    | i c where "(i, c) \<in> set (enumerate 0 collections)" "d = out_segs cwd root @ [c_name c]"
    unfolding write_ops_eq [OF assms(1)] by auto
  then show ?thesis
  proof cases
    case (3 i c)
    obtain q t where qt: "(q, t) \<in> set (collection_files pkg b (i, c))" using collection_files_nonempty by blast
    then have "(q, t) \<in> set (output_files pkg b rs)" using 3(1) by (auto simp: output_files_mem)
    moreover have "d = out_segs cwd root @ butlast q" using 3(2) collection_files_butlast [OF qt] by simp
    ultimately show ?thesis by blast
  qed (auto simp: output_files_mem)
qed

lemma write_ops_mkdir_of:
  assumes "\<forall>r\<in>set rs. plain_path (r_target r)" "(q, t) \<in> set (output_files pkg b rs)"
  shows "Mkdir (out_segs cwd root @ butlast q) \<in> set (write_ops pkg cwd root b rs)"
  using assms(2) unfolding write_ops_eq [OF assms(1)] output_files_mem
  by (auto dest!: collection_files_butlast)

lemma write_ops_parents:
  assumes "\<forall>r\<in>set rs. plain_path (r_target r)"
  shows "parents_made {} (write_ops pkg cwd root b rs)"
proof -
  have writes: "parents_made {d} (map (\<lambda>(q, t). Write (o' @ q) t) fs)"
    if "\<forall>x\<in>set fs. fst x \<noteq> [] \<and> o' @ butlast (fst x) = d" for d o' and fs :: "(segs \<times> string) list"
    using that by (induction fs) (simp_all add: butlast_append split_beta)
  let ?o = "out_segs cwd root"
  have pages: "parents_made {} (concat (map (\<lambda>r. [Mkdir (?o @ butlast (segments (r_target r))),
       Write (?o @ segments (r_target r)) (r_text r)]) rs))"
    by (rule parents_made_concat) (simp add: butlast_append)
  have colls: "parents_made {} (concat (map (\<lambda>(i, c). Mkdir (?o @ [c_name c]) #
       map (\<lambda>(q, t). Write (?o @ q) t) (collection_files pkg b (i, c))) (enumerate 0 collections)))"
  proof (rule parents_made_concat, clarify)
    fix i c
    have "parents_made {?o @ [c_name c]} (map (\<lambda>(q, t). Write (?o @ q) t) (collection_files pkg b (i, c)))"
      by (rule writes) (use collection_files_butlast in force)
    then show "parents_made {} (Mkdir (?o @ [c_name c]) # map (\<lambda>(q, t). Write (?o @ q) t) (collection_files pkg b (i, c)))"
      by simp
  qed
  show ?thesis
    unfolding write_ops_eq [OF assms] parents_made.simps
    by (intro parents_made_append [OF parents_made_mono [OF pages] colls]) simp
qed

lemma write_ops_no_rm: "\<forall>r\<in>set rs. plain_path (r_target r) \<Longrightarrow> \<not> list_ex is_rm (write_ops pkg cwd root b rs)"
  unfolding write_ops_eq by (auto simp: list_ex_iff split: prod.splits)

section \<open>The generated files do not clash\<close>

lemma renderAll_mem:
  "renderAll pkg cwd fs b context = Inr rs \<Longrightarrow> r \<in> set rs \<Longrightarrow>
   \<exists>pg\<in>set (b_pages b). r_target r = p_target pg \<and> renderPage pkg cwd fs b context pg = Inr (r_text r)"
  unfolding renderAll_def by (drule (1) mapE_mem) (auto simp: seqE)

lemma renderAll_targets:
  "renderAll pkg cwd fs b context = Inr rs \<Longrightarrow> map r_target rs = map p_target (b_pages b)"
  unfolding renderAll_def by (erule mapE_map_eq) (auto simp: seqE)

lemma renderAll_page:
  "renderAll pkg cwd fs b context = Inr rs \<Longrightarrow> pg \<in> set (b_pages b) \<Longrightarrow>
   \<exists>t. renderPage pkg cwd fs b context pg = Inr t \<and> \<lparr>r_target = p_target pg, r_text = t\<rparr> \<in> set rs"
proof -
  have "\<exists>y\<in>set ys. f x = Inr y" if "mapE f xs = Inr ys" "x \<in> set xs" for f xs ys x
    using that by (induction xs arbitrary: ys) (auto simp: seqE)
  then show "renderAll pkg cwd fs b context = Inr rs \<Longrightarrow> pg \<in> set (b_pages b) \<Longrightarrow> ?thesis"
    unfolding renderAll_def by (fastforce simp: seqE)
qed

lemma page_file:
  assumes "glob_ok pkg" "page_origin pkg cwd fs root pg"
  shows "is_file fs (resolve_segs cwd [root] @ segments (p_source pg))"
proof -
  obtain t where "read_file fs (resolve_segs cwd [path_join [root, p_source pg]]) = Inr t"
    using assms(2) by (auto simp: page_origin_def readPage_def seqE)
  then show ?thesis
    by (simp add: join_plain [OF target_plain(2) [OF assms]] read_file_def is_file_def split: option.splits fnode.splits)
qed

lemma target_segments:
  assumes "glob_ok pkg" "page_origin pkg cwd fs root pg"
  obtains (overview) "p_collection pg = ''overview''" "segments (p_target pg) = [''index.md'']"
    "segments (p_source pg) = [''docs'', ''README.md'']"
  | (collection) f where "p_collection pg \<in> set (map c_name collections)"
    "segments (p_target pg) = p_collection pg # segments f" "segments (p_source pg) = ''docs'' # segments (p_target pg)"
  using assms
proof (cases rule: page_origin_cases)
  case overview
  have "segments ''index.md'' = [''index.md'']" "segments ''docs/README.md'' = [''docs'', ''README.md'']"
    by (simp_all add: segments_def)
  with overview show thesis by (intro that(1)) simp_all
next
  case (collection f)
  have "plain ''docs''" by (simp add: plain_def)
  from segments_name [OF this, of "p_target pg"] collection segments_name [OF collection_plain, of "p_collection pg" f]
  show thesis using that(2) by simp
qed

lemma target_inj:
  assumes "glob_ok pkg" "page_origin pkg cwd fs root p" "page_origin pkg cwd fs root q" "p_target p = p_target q"
  shows "p = q"
proof -
  have "''overview'' \<notin> set (map c_name collections)" "''index.md'' \<notin> set (map c_name collections)"
    by (simp_all add: collections_def)
  with assms(4) have "segments (p_source p) = segments (p_source q)"
    by (cases rule: target_segments [OF assms(1,2)]; cases rule: target_segments [OF assms(1,3)]) auto
  then have "p_source p = p_source q" by (metis of_segs_segments)
  with assms(2,3) show ?thesis by (rule page_origin_unique)
qed

lemma prefix_butlast: "prefix p (butlast q) \<Longrightarrow> q \<noteq> [] \<Longrightarrow> \<exists>r. q = p @ r \<and> r \<noteq> []"
  by (metis append_butlast_last_id append_assoc not_Cons_self2 prefixE snoc_eq_iff_butlast)

lemma targets_apart:
  assumes "glob_ok pkg" "fs_wf fs" "page_origin pkg cwd fs root p" "page_origin pkg cwd fs root q"
  shows "\<not> prefix (segments (p_target p)) (butlast (segments (p_target q)))"
proof
  let ?p = "segments (p_target p)" and ?q = "segments (p_target q)" and ?R = "resolve_segs cwd [root]"
  assume "prefix ?p (butlast ?q)"
  then obtain r where r: "?q = ?p @ r" "r \<noteq> []" using prefix_butlast [OF _ segments_nonempty] by blast
  have names: "''index.md'' \<notin> set (map c_name collections)" by (simp add: collections_def)
  have p: "segments (p_source p) = ''docs'' # ?p" and q: "segments (p_source q) = ''docs'' # ?q"
    using r names
    by (cases rule: target_segments [OF assms(1,3)]; cases rule: target_segments [OF assms(1,4)]; auto)+
  have "fs ((?R @ ''docs'' # ?p) @ r) \<noteq> None"
    using page_file [OF assms(1,4)] by (auto simp: q r is_file_def split: option.splits)
  then have "fs (?R @ ''docs'' # ?p) = Some FDir" using assms(2) r(2) fs_wf_ancestor by blast
  then show False using page_file [OF assms(1,3)] by (simp add: p is_file_def)
qed

text \<open>No documentation directory has the name of a category file.\<close>

definition no_category_dir :: "string \<Rightarrow> fs \<Rightarrow> string \<Rightarrow> bool" where
  "no_category_dir cwd fs root \<longleftrightarrow>
     (\<forall>c\<in>set collections. fs (resolve_segs cwd [root] @ [''docs'', c_name c, ''_category_.json'']) \<noteq> Some FDir)"

lemma category_apart:
  assumes "glob_ok pkg" "fs_wf fs" "no_category_dir cwd fs root" "page_origin pkg cwd fs root pg" "c \<in> set collections"
  shows "\<not> prefix [c_name c, ''_category_.json''] (segments (p_target pg))"
proof
  let ?t = "segments (p_target pg)" and ?R = "resolve_segs cwd [root]"
  assume "prefix [c_name c, ''_category_.json''] ?t"
  then obtain r where r: "?t = [c_name c, ''_category_.json''] @ r" by (auto simp: prefix_def)
  have "c_name c \<noteq> ''index.md''" using assms(5) by (auto simp: collections_def)
  with r have src: "segments (p_source pg) = ''docs'' # ?t"
    by (cases rule: target_segments [OF assms(1,4)]) auto
  have ex: "fs ((?R @ [''docs'', c_name c, ''_category_.json'']) @ r) \<noteq> None"
    using page_file [OF assms(1,4)] by (auto simp: src r is_file_def split: option.splits)
  show False
  proof (cases "r = []")
    case False
    then have "fs (?R @ [''docs'', c_name c, ''_category_.json'']) = Some FDir"
      using ex assms(2) fs_wf_ancestor by blast
    with assms(3,5) show False by (simp add: no_category_dir_def)
  next
    case True
    from assms(1,4) show False
    proof (cases rule: page_origin_cases)
      case overview
      with r show False by (simp add: segments_def)
    next
      case (collection f)
      then have "segments f = [''_category_.json'']"
        using r True segments_name [OF collection_plain, of "p_collection pg" f] by simp
      then have "f = of_segs [''_category_.json'']" by (metis of_segs_segments)
      with collection(6) show False by (auto simp: of_segs_def suffix_def)
    qed
  qed
qed

text \<open>Everything that holds when the writing phase starts.\<close>

definition ready :: "packages \<Rightarrow> string \<Rightarrow> fs \<Rightarrow> build_context \<Rightarrow> doc_bundle \<Rightarrow> rendered list \<Rightarrow> bool" where
  "ready pkg cwd fs context b rs \<longleftrightarrow>
     glob_ok pkg \<and> fs_wf fs \<and> no_category_dir cwd fs (b_root b) \<and> bundle_spec pkg cwd fs b \<and>
     renderAll pkg cwd fs b context = Inr rs"

lemma ready_origin: "ready pkg cwd fs context b rs \<Longrightarrow> pg \<in> set (b_pages b) \<Longrightarrow> page_origin pkg cwd fs (b_root b) pg"
  by (simp add: ready_def bundle_spec_def)

lemma rendered_plain:
  assumes "glob_ok pkg" "bundle_spec pkg cwd fs b" "renderAll pkg cwd fs b context = Inr rs"
  shows "\<forall>r\<in>set rs. plain_path (r_target r)"
  using assms renderAll_mem [OF assms(3)] target_plain(1) unfolding bundle_spec_def by metis

lemma ready_plain: "ready pkg cwd fs context b rs \<Longrightarrow> \<forall>r\<in>set rs. plain_path (r_target r)"
  unfolding ready_def using rendered_plain by blast

lemma output_files_cases:
  assumes "ready pkg cwd fs context b rs" "(q, t) \<in> set (output_files pkg b rs)"
  obtains (page) pg where "pg \<in> set (b_pages b)" "q = segments (p_target pg)"
      "renderPage pkg cwd fs b context pg = Inr t"
  | (index) c where "c \<in> set collections" "emptyCollection b c" "q = [c_name c, ''index.md'']" "t = emptyText pkg c"
  | (category) i c where "(i, c) \<in> set (enumerate 0 collections)" "q = [c_name c, ''_category_.json'']"
      "t = json_stringify (number_format pkg) 0 (category c i (emptyCollection b c)) @ [newline]"
proof -
  from assms(2) [unfolded output_files_mem] show thesis
  proof
    assume "\<exists>r\<in>set rs. q = segments (r_target r) \<and> t = r_text r"
    then show thesis using renderAll_mem [of pkg cwd fs b "context" rs] assms(1) page unfolding ready_def by metis
  next
    assume "\<exists>ic\<in>set (enumerate 0 collections). (q, t) \<in> set (collection_files pkg b ic)"
    then obtain i c where "(i, c) \<in> set (enumerate 0 collections)" "(q, t) \<in> set (collection_files pkg b (i, c))"
      by auto
    with enumerate_collections [of i c] show thesis
      using index category by (auto simp: collection_files_def split: if_splits)
  qed
qed

text \<open>A page is never below, nor at, a file generated for a collection.\<close>

lemma page_vs_collection:
  assumes "ready pkg cwd fs context b rs" "pg \<in> set (b_pages b)" "c \<in> set collections"
    and "x = ''_category_.json'' \<or> x = ''index.md'' \<and> emptyCollection b c"
  shows "\<not> prefix [c_name c, x] (segments (p_target pg))"
proof
  assume pre: "prefix [c_name c, x] (segments (p_target pg))"
  have g: "glob_ok pkg" and o': "page_origin pkg cwd fs (b_root b) pg"
    using assms(1,2) by (auto simp: ready_def bundle_spec_def)
  have "x \<noteq> ''_category_.json''"
    using category_apart [OF g _ _ o' assms(3)] assms(1) pre by (auto simp: ready_def)
  then have e: "emptyCollection b c" using assms(4) by blast
  have "c_name c \<noteq> ''index.md''" using assms(3) by (auto simp: collections_def)
  then have "p_collection pg = c_name c"
    using pre by (cases rule: target_segments [OF g o']) auto
  with e assms(2) show False by (auto simp: emptyCollection_def list_ex_iff)
qed

lemma output_files_apart:
  assumes "ready pkg cwd fs context b rs" "(q, t) \<in> set (output_files pkg b rs)"
    and "(q', t') \<in> set (output_files pkg b rs)"
  shows "\<not> prefix q (butlast q')"
proof -
  have g: "glob_ok pkg" "fs_wf fs" using assms(1) by (auto simp: ready_def)
  have two: "\<not> prefix (segments (p_target pg)) [c_name c]" if "pg \<in> set (b_pages b)" "c \<in> set collections" for pg c
  proof -
    have "c_name c \<noteq> ''index.md''" using that(2) by (auto simp: collections_def)
    then show ?thesis by (cases rule: target_segments [OF g(1) ready_origin [OF assms(1) that(1)]]) auto
  qed
  have up: "prefix q (butlast q') \<Longrightarrow> prefix q q'" by (metis prefix_order.trans prefixeq_butlast)
  from assms(1,3) show ?thesis
  proof (cases rule: output_files_cases)
    case (page pg)
    note x = page
    from assms(1,2) show ?thesis
    proof (cases rule: output_files_cases)
      case (page pg')
      then show ?thesis using x targets_apart [OF g] ready_origin [OF assms(1)] by blast
    next
      case (index c)
      then show ?thesis using x up page_vs_collection [OF assms(1), of pg c] by blast
    next
      case (category i c)
      then show ?thesis using x up page_vs_collection [OF assms(1), of pg c] enumerate_collections by blast
    qed
  next
    case (index c)
    with assms(1,2) show ?thesis by (cases rule: output_files_cases) (use two in auto)
  next
    case (category i c)
    with assms(1,2) enumerate_collections [OF category(1)] show ?thesis
      by (cases rule: output_files_cases) (use two in auto)
  qed
qed

lemma collection_names: "distinct (map c_name collections)"
  by (simp add: collections_def)

lemma collections_distinct:
  assumes "(i, c) \<in> set (enumerate 0 collections)" "(j, d) \<in> set (enumerate 0 collections)" "c_name c = c_name d"
  shows "i = j \<and> c = d"
proof -
  have ij: "i < length collections" "j < length collections" "c = collections ! i" "d = collections ! j"
    using assms(1,2) by (auto simp: in_set_enumerate_eq)
  with assms(3) have "map c_name collections ! i = map c_name collections ! j" by simp
  then have "i = j" using nth_eq_iff_index_eq [OF collection_names, of i j] ij(1,2) by simp
  with ij show ?thesis by simp
qed

lemma output_files_functional:
  assumes "ready pkg cwd fs context b rs" "(q, t) \<in> set (output_files pkg b rs)"
    and "(q, t') \<in> set (output_files pkg b rs)"
  shows "t = t'"
proof -
  have g: "glob_ok pkg" using assms(1) by (auto simp: ready_def)
  have same: "x = y" if "x \<in> set (b_pages b)" "y \<in> set (b_pages b)" "segments (p_target x) = segments (p_target y)" for x y
    using that target_inj [OF g] ready_origin [OF assms(1)] by (metis of_segs_segments)
  have names: "c = d" if "c \<in> set collections" "d \<in> set collections" "c_name c = c_name d" for c d
    using that collection_names by (auto simp: distinct_map dest: inj_onD)
  note apart = page_vs_collection [OF assms(1)]
  from assms(1,2) show ?thesis
  proof (cases rule: output_files_cases)
    case (page pg)
    note x = page
    from assms(1,3) show ?thesis
    proof (cases rule: output_files_cases)
      case (page pg')
      have "pg = pg'" using same x(1,2) page(1,2) by blast
      with x(3) page(3) show ?thesis by simp
    next
      case (index c)
      with x apart [of pg c "''index.md''"] show ?thesis by simp
    next
      case (category i c)
      with x apart [of pg c "''_category_.json''"] enumerate_collections show ?thesis by simp
    qed
  next
    case (index c)
    note x = index
    from assms(1,3) show ?thesis
    proof (cases rule: output_files_cases)
      case (page pg')
      with x apart [of pg' c "''index.md''"] show ?thesis by simp
    next
      case (index c')
      have "c = c'" using names x(1,3) index(1,3) by blast
      with x(4) index(4) show ?thesis by simp
    qed (use x in simp)
  next
    case (category i c)
    note x = category
    from assms(1,3) show ?thesis
    proof (cases rule: output_files_cases)
      case (page pg')
      with x apart [of pg' c "''_category_.json''"] enumerate_collections show ?thesis by simp
    next
      case (category j d)
      have "i = j \<and> c = d" using collections_distinct x(1,2) category(1,2) by blast
      with x(3) category(3) show ?thesis by simp
    qed (use x in simp)
  qed
qed

section \<open>The writing phase succeeds\<close>

lemma root_of_page:
  assumes "glob_ok pkg" "fs_wf fs" "page_origin pkg cwd fs root pg"
  shows "fs (resolve_segs cwd [root]) = Some FDir"
proof -
  have "fs (resolve_segs cwd [root] @ segments (p_source pg)) \<noteq> None"
    using page_file [OF assms(1,3)] by (auto simp: is_file_def split: option.splits)
  then show ?thesis using fs_wf_ancestor [OF assms(2)] by simp
qed

lemma root_directory:
  assumes "ready pkg cwd fs context b rs"
  shows "fs (resolve_segs cwd [b_root b]) = Some FDir"
proof -
  have "b_pages b \<noteq> []" using assms by (simp add: ready_def bundle_spec_def)
  then obtain pg where "pg \<in> set (b_pages b)" by (cases "b_pages b") auto
  with root_of_page ready_origin [OF assms] show ?thesis using assms unfolding ready_def by blast
qed

lemma strict_prefix_cases:
  assumes "prefix q (R @ [x, y] @ z)" "\<not> prefix (R @ [x, y]) q"
  shows "prefix q R \<or> q = R @ [x]"
proof -
  have "prefix q ((R @ [x]) @ [y])"
    using assms prefix_same_cases [of q "(R @ [x, y]) @ z" "R @ [x, y]"] by auto
  then have "prefix q (R @ [x])" using assms(2) unfolding prefix_snoc by auto
  then show ?thesis by (auto simp: prefix_snoc)
qed

lemma write_ops_no_clash:
  assumes r: "ready pkg cwd fs context b rs"
    and pages: "\<not> is_file fs (resolve_segs cwd [b_root b] @ [''pages''])"
  shows "no_clash (fs_rm (out_segs cwd (b_root b)) fs) (write_ops pkg cwd (b_root b) b rs)"
proof -
  let ?R = "resolve_segs cwd [b_root b]" and ?out = "out_segs cwd (b_root b)"
  let ?fs = "fs_rm ?out fs" and ?xs = "write_ops pkg cwd (b_root b) b rs"
  note plain = ready_plain [OF r]
  have wf: "fs_wf fs" using r by (simp add: ready_def)
  have gone: "?fs (?out @ q) = None" for q by (simp add: fs_rm_def)
  have dirs: "\<exists>x. d = ?out @ x" if "Mkdir d \<in> set ?xs" for d using write_ops_mkdirs [OF plain that] by auto
  have below: "\<not> is_file ?fs q" if q: "prefix q (?out @ x)" for q x
  proof (cases "prefix ?out q")
    case True
    then show ?thesis using gone by (auto simp: is_file_def prefix_def)
  next
    case False
    then have "prefix q ?R \<or> q = ?R @ [''pages'']"
      using strict_prefix_cases [of q ?R "''pages''" "''docs''" x] q by (simp add: out_segs_def)
    moreover have "fs q = Some FDir" if pre: "prefix q ?R"
    proof -
      obtain z where z: "?R = q @ z" using pre unfolding prefix_def by blast
      show ?thesis
        using root_directory [OF r] fs_wf_ancestor [OF wf, of q z] by (cases "z = []") (auto simp: z)
    qed
    ultimately show ?thesis using pages False by (auto simp: is_file_def fs_rm_def split: option.splits)
  qed
  have apart: "\<not> prefix p d" if w: "Write p t \<in> set ?xs" and d: "Mkdir d \<in> set ?xs" for p t d
  proof -
    obtain q where q: "p = ?out @ q" "(q, t) \<in> set (output_files pkg b rs)"
      using w write_ops_writes [OF plain] by blast
    from write_ops_mkdirs [OF plain d] show ?thesis
      using q output_files_nonempty [OF q(2)] output_files_apart [OF r q(2)] by auto
  qed
  show ?thesis
    unfolding no_clash_def
  proof (intro conjI allI impI)
    fix p t assume "Write p t \<in> set ?xs"
    then obtain q where "p = ?out @ q" using write_ops_writes [OF plain] by blast
    then show "?fs p \<noteq> Some FDir" using gone by simp
  qed (use apart dirs below in blast)+
qed

lemma writing_succeeds:
  assumes "ready pkg cwd fs context b rs" "\<not> is_file fs (resolve_segs cwd [b_root b] @ [''pages''])"
  shows "\<exists>fs'. run_ops fs_step fs (outputOps pkg cwd (b_root b) b rs) = (None, fs')"
  using run_succeeds [OF write_ops_parents [OF ready_plain [OF assms(1)]] write_ops_no_clash [OF assms]]
  by (simp add: outputOps_split)

section \<open>The generated directory\<close>

lemma prefix_butlast_iff: "q \<noteq> [] \<Longrightarrow> prefix x (butlast q) \<longleftrightarrow> strict_prefix x q"
  by (cases q rule: rev_cases) (auto simp: strict_prefix_def prefix_snoc)

lemma write_ops_made:
  assumes "\<forall>r\<in>set rs. plain_path (r_target r)"
  shows "made_dir (write_ops pkg cwd root b rs) (out_segs cwd root @ x) \<longleftrightarrow>
    x = [] \<or> (\<exists>q t. (q, t) \<in> set (output_files pkg b rs) \<and> strict_prefix x q)"
proof -
  have "made_dir (write_ops pkg cwd root b rs) (out_segs cwd root @ x) \<longleftrightarrow>
      x = [] \<or> (\<exists>q t. (q, t) \<in> set (output_files pkg b rs) \<and> prefix x (butlast q))"
    unfolding made_dir_iff
  proof (intro iffI; elim exE conjE disjE)
    fix d assume "Mkdir d \<in> set (write_ops pkg cwd root b rs)" "prefix (out_segs cwd root @ x) d"
    with write_ops_mkdirs [OF assms this(1)]
    show "x = [] \<or> (\<exists>q t. (q, t) \<in> set (output_files pkg b rs) \<and> prefix x (butlast q))" by auto
  next
    assume "x = []"
    then show "\<exists>p. Mkdir p \<in> set (write_ops pkg cwd root b rs) \<and> prefix (out_segs cwd root @ x) p"
      unfolding write_ops_eq [OF assms] by auto
  next
    fix q t assume "(q, t) \<in> set (output_files pkg b rs)" "prefix x (butlast q)"
    then show "\<exists>p. Mkdir p \<in> set (write_ops pkg cwd root b rs) \<and> prefix (out_segs cwd root @ x) p"
      using write_ops_mkdir_of [OF assms] by (metis same_prefix_prefix)
  qed
  then show ?thesis using output_files_nonempty prefix_butlast_iff by metis
qed

lemma generated_tree:
  assumes r: "ready pkg cwd fs context b rs"
    and run: "run_ops fs_step fs (outputOps pkg cwd (b_root b) b rs) = (None, fs')"
  shows "fs' (out_segs cwd (b_root b) @ x) =
    (case map_of (output_files pkg b rs) x of
       Some t \<Rightarrow> Some (FFile t)
     | None \<Rightarrow> if x = [] \<or> (\<exists>q t. (q, t) \<in> set (output_files pkg b rs) \<and> strict_prefix x q)
               then Some FDir else None)"
proof -
  let ?out = "out_segs cwd (b_root b)" and ?xs = "write_ops pkg cwd (b_root b) b rs"
  note plain = ready_plain [OF r]
  have "run_ops fs_step (fs_rm ?out fs) ?xs = (None, fs')" using run by (simp add: outputOps_split)
  note kept = run_keeps_file_or_dir [OF this write_ops_no_rm [OF plain], of "?out @ x"]
  have lw: "last_write ?xs (?out @ x) = map_of (output_files pkg b rs) x"
  proof (cases "map_of (output_files pkg b rs) x")
    case None
    then have "(x, t) \<notin> set (output_files pkg b rs)" for t by (auto simp: map_of_eq_None_iff image_iff)
    then have "last_write ?xs (?out @ x) = None" by (simp add: last_write_None write_ops_writes [OF plain])
    with None show ?thesis by simp
  next
    case (Some t)
    have "last_write ?xs (?out @ x) = Some t \<longleftrightarrow> Write (?out @ x) t \<in> set ?xs"
      using output_files_functional [OF r]
      by (intro last_write_unique) (auto simp: write_ops_writes [OF plain])
    with Some show ?thesis using map_of_SomeD [OF Some] by (simp add: write_ops_writes [OF plain])
  qed
  have gone: "fs_rm ?out fs (?out @ x) = None" by (simp add: fs_rm_def)
  show ?thesis unfolding kept lw gone write_ops_made [OF plain] by (auto split: option.splits)
qed

lemma assemble_cases:
  obtains (refused) e where "assemble pkg cwd fs root context = (Inl e, fs)"
      "loadDocumentation pkg cwd fs root = Inl e \<or>
       (\<exists>b. loadDocumentation pkg cwd fs root = Inr b \<and> renderAll pkg cwd fs b context = Inl e)"
  | (written) b rs where "loadDocumentation pkg cwd fs root = Inr b" "renderAll pkg cwd fs b context = Inr rs"
      "b_root b = root" "bundle_spec pkg cwd fs b" "length rs = length (b_pages b)"
      "assemble pkg cwd fs root context =
         (case run_ops fs_step fs (outputOps pkg cwd root b rs) of
            (Some e, fs') \<Rightarrow> (Inl e, fs') | (None, fs') \<Rightarrow> (Inr (length rs), fs'))"
proof (cases "loadDocumentation pkg cwd fs root")
  case (Inl e)
  then show thesis using refused by (simp add: assemble_def)
next
  case (Inr b)
  note load = this
  show thesis
  proof (cases "renderAll pkg cwd fs b context")
    case (Inl e)
    with load show thesis using refused by (simp add: assemble_def)
  next
    case (Inr rs)
    have "map r_target rs = map p_target (b_pages b)" using renderAll_targets [OF Inr] .
    then have "length rs = length (b_pages b)" by (metis length_map)
    with load Inr loadDocumentation_spec [OF load] show thesis by (intro written) (simp_all add: assemble_def)
  qed
qed

text \<open>Outside the generated directory only missing directories above it can appear.\<close>

lemma assemble_outside:
  assumes "glob_ok pkg" "assemble pkg cwd fs root context = (r, fs')" "\<not> prefix (out_segs cwd root) q"
  shows "fs' q = fs q \<or> fs q = None \<and> prefix q (out_segs cwd root) \<and> fs' q = Some FDir"
proof (cases rule: assemble_cases [of pkg cwd fs root "context"])
  case (refused e)
  with assms(2) show ?thesis by simp
next
  case (written b rs)
  let ?out = "out_segs cwd root" and ?ops = "outputOps pkg cwd root b rs"
  have plain: "\<forall>r\<in>set rs. plain_path (r_target r)" using rendered_plain [OF assms(1) written(4,2)] .
  have nw: "Write q t \<notin> set ?ops" for t
    using assms(3) write_ops_writes [OF plain, of q t] by (auto simp: outputOps_split)
  have nr: "\<not> prefix p q" if "Rm p \<in> set ?ops" for p
    using that assms(3) write_ops_no_rm [OF plain, of pkg cwd root b] by (auto simp: outputOps_split list_ex_iff)
  have fs': "fs' = snd (run_ops fs_step fs ?ops)" using assms(2) written(6) by (auto split: prod.splits option.splits)
  have "prefix q ?out" if md: "made_dir ?ops q"
  proof -
    obtain d where d: "Mkdir d \<in> set (write_ops pkg cwd root b rs)" "prefix q d"
      using md by (auto simp: made_dir_iff outputOps_split)
    then obtain x where "prefix q (?out @ x)" using write_ops_mkdirs [OF plain d(1)] by force
    then show ?thesis using assms(3) prefix_same_cases [of q "?out @ x" ?out] by auto
  qed
  then show ?thesis using run_outside [of q ?ops fs, OF nw nr] unfolding fs' by blast
qed

text \<open>The writing phase fails only with an error of the file system.\<close>

lemma run_fs_error: "run_ops fs_step fs xs = (Some e, fs') \<Longrightarrow> \<exists>c d. e = FsError c d"
proof (induction xs arbitrary: fs)
  case (Cons x xs)
  show ?case
  proof (cases "fs_step fs x")
    case (Inl e')
    with Cons.prems show ?thesis
      by (cases x) (auto simp: fs_mkdir_def fs_write_def fs_error_def open_error_def split: if_splits)
  next
    case (Inr fs1)
    with Cons show ?thesis by simp
  qed
qed simp

text \<open>After a successful run every page lies at its target.\<close>

lemma published_file:
  assumes r: "ready pkg cwd fs context b rs" and pg: "pg \<in> set (b_pages b)"
    and run: "run_ops fs_step fs (outputOps pkg cwd (b_root b) b rs) = (None, fs')"
  shows "\<exists>t. renderPage pkg cwd fs b context pg = Inr t \<and>
    fs' (out_segs cwd (b_root b) @ segments (p_target pg)) = Some (FFile t)"
proof -
  obtain t where t: "renderPage pkg cwd fs b context pg = Inr t" "\<lparr>r_target = p_target pg, r_text = t\<rparr> \<in> set rs"
    using renderAll_page [OF _ pg] r unfolding ready_def by blast
  then have mem: "(segments (p_target pg), t) \<in> set (output_files pkg b rs)"
    unfolding output_files_mem by (metis rendered.select_convs)
  then obtain t' where t': "map_of (output_files pkg b rs) (segments (p_target pg)) = Some t'"
    by (meson weak_map_of_SomeI)
  with output_files_functional [OF r mem map_of_SomeD] have "t' = t" by blast
  with generated_tree [OF r run, of "segments (p_target pg)"] t' t(1) show ?thesis by simp
qed

text \<open>The number \<open>assemble\<close> returns, and how it can fail.\<close>

lemma loaded_count:
  assumes "loadDocumentation pkg cwd fs root = Inr b"
  shows "length (b_pages b) = 1 + sum_list (map (\<lambda>c. length (collectionFiles pkg cwd fs root (c_name c))) collections)"
proof -
  have "length (b_pages b) = length (''docs/README.md'' # concat (map (collection_sources pkg cwd fs root) collections))"
    using readPages_sources [OF loadDocumentation_pages [OF assms]] by (metis length_map)
  then show ?thesis by (simp add: length_concat collection_sources_def comp_def)
qed

lemma assemble_Inr:
  assumes "assemble pkg cwd fs root context = (Inr n, fs')"
  obtains b rs where "loadDocumentation pkg cwd fs root = Inr b" "renderAll pkg cwd fs b context = Inr rs"
    "b_root b = root" "bundle_spec pkg cwd fs b" "n = length (b_pages b)"
    "run_ops fs_step fs (outputOps pkg cwd root b rs) = (None, fs')"
proof (cases rule: assemble_cases [of pkg cwd fs root "context"])
  case (refused e)
  with assms show thesis by simp
next
  case (written b rs)
  with assms show thesis by (intro that [of b rs]) (auto split: prod.splits option.splits)
qed

lemma assemble_Inl:
  assumes "assemble pkg cwd fs root context = (Inl e, fs')"
  shows "fs' = fs \<and> (loadDocumentation pkg cwd fs root = Inl e \<or>
        (\<exists>b. loadDocumentation pkg cwd fs root = Inr b \<and> renderAll pkg cwd fs b context = Inl e)) \<or>
      (\<exists>b rs c d. loadDocumentation pkg cwd fs root = Inr b \<and> renderAll pkg cwd fs b context = Inr rs \<and>
         e = FsError c d)"
proof (cases rule: assemble_cases [of pkg cwd fs root "context"])
  case (refused e')
  with assms show ?thesis by simp
next
  case (written b rs)
  then have "run_ops fs_step fs (outputOps pkg cwd root b rs) = (Some e, fs')"
    using assms by (auto split: prod.splits option.splits)
  with written(1,2) show ?thesis using run_fs_error by blast
qed

section \<open>A page below a category file\<close>

text \<open>
  Loading does not reject a documentation directory named like a category file. Its pages and
  the category file need the same path, so writing fails, after the old site was removed.
\<close>

lemma category_conflict:
  assumes "\<forall>r\<in>set rs. plain_path (r_target r)" "r \<in> set rs" "c \<in> set collections"
    and "strict_prefix [c_name c, ''_category_.json''] (segments (r_target r))"
    and "run_ops fs_step fs (write_ops pkg cwd root b rs) = (e, fs')"
  shows "e \<noteq> None"
proof
  assume "e = None"
  with assms(5) have run: "run_ops fs_step fs (write_ops pkg cwd root b rs) = (None, fs')" by simp
  have "c \<in> snd ` set (enumerate 0 collections)"
    unfolding set_map [symmetric] map_snd_enumerate using assms(3) .
  then obtain i where i: "(i, c) \<in> set (enumerate 0 collections)" by auto
  then have "\<exists>t. ([c_name c, ''_category_.json''], t) \<in> set (output_files pkg b rs)"
    unfolding output_files_mem by (auto simp: collection_files_def intro!: bexI [OF _ i])
  then obtain t where w: "Write (out_segs cwd root @ [c_name c, ''_category_.json'']) t \<in> set (write_ops pkg cwd root b rs)"
    unfolding write_ops_writes [OF assms(1)] by blast
  have "(segments (r_target r), r_text r) \<in> set (output_files pkg b rs)"
    using assms(2) by (auto simp: output_files_mem)
  note mk = write_ops_mkdir_of [OF assms(1) this, of cwd root]
  from run_no_conflict [OF run write_ops_no_rm [OF assms(1)] w mk] assms(4) show False
    by (simp add: prefix_butlast_iff)
qed

text \<open>What is not written again is gone once the removal has run, whether or not writing succeeds.\<close>

lemma stale_removed:
  assumes "\<forall>r\<in>set rs. plain_path (r_target r)" "x \<noteq> []"
    and "\<not> (\<exists>q t. (q, t) \<in> set (output_files pkg b rs) \<and> prefix x q)"
  shows "snd (run_ops fs_step fs (outputOps pkg cwd root b rs)) (out_segs cwd root @ x) = None"
proof -
  let ?out = "out_segs cwd root"
  have "\<not> op_touches op (?out @ x)" if op: "op \<in> set (write_ops pkg cwd root b rs)" for op
  proof (cases op)
    case (Rm p)
    with op write_ops_no_rm [OF assms(1), of pkg cwd root b] show ?thesis by (auto simp: list_ex_iff)
  next
    case (Mkdir d)
    have "\<not> prefix x (butlast q)" if "(q, t) \<in> set (output_files pkg b rs)" for q t
      using assms(3) that prefix_order.trans [OF _ prefixeq_butlast] by blast
    with Mkdir write_ops_mkdirs [OF assms(1), of d pkg cwd root b] op assms(2) show ?thesis by auto
  next
    case (Write p t)
    with write_ops_writes [OF assms(1), of p t pkg cwd root b] op assms(3) show ?thesis by auto
  qed
  from fsm.run_frame [OF this] have "snd (run_ops fs_step (fs_rm ?out fs) (write_ops pkg cwd root b rs)) (?out @ x) =
      fs_rm ?out fs (?out @ x)" by blast
  then show ?thesis by (simp add: outputOps_split fs_rm_def)
qed

end
