(* ===== verification/SampleSite.thy ===== *)
theory SampleSite
  imports DocAssemble
begin

text \<open>
  A small documentation tree on which the model is run: an overview, a handbook page, and a
  decision that another one replaces; no requirements and no templates. The packages are
  concrete functions: YAML and Markdown texts are names of fixed values, \<open>visit\<close> goes in
  preorder, and \<open>glob\<close> filters a list of candidates by what the file system has. Two more
  repositories and a variant of the first have a defect that loading does not reject.
\<close>

section \<open>Texts and trees\<close>

definition md_leaf :: "string \<Rightarrow> string \<Rightarrow> mdnode" where
  "md_leaf ty s = MdNode ty (Some s) 0 None None [] []"

definition md_block :: "string \<Rightarrow> nat \<Rightarrow> mdnode list \<Rightarrow> mdnode" where
  "md_block ty d cs = MdNode ty None d None None [] cs"

definition md_link :: "string \<Rightarrow> string \<Rightarrow> mdnode" where
  "md_link ty u = MdNode ty None 0 (Some u) None [] [md_leaf ''text'' u]"

definition index_row :: "string \<Rightarrow> mdnode" where
  "index_row u = md_block ''tableRow'' 0
     [md_block ''tableCell'' 0 [md_link ''link'' u], md_block ''tableCell'' 0 [md_leaf ''text'' ''purpose'']]"

definition sample_heading :: "nat \<Rightarrow> string \<Rightarrow> mdnode" where
  "sample_heading d s = md_block ''heading'' d [md_leaf ''text'' s]"

definition overview_tree :: mdnode where
  "overview_tree = md_block ''root'' 0
     [sample_heading 1 ''Documentation'',
      sample_heading 2 ''Handbook'',
      md_block ''table'' 0 [md_block ''tableRow'' 0 [], index_row ''handbook/guide.md''],
      sample_heading 2 ''Decisions'',
      md_block ''table'' 0 [md_block ''tableRow'' 0 [], index_row ''decisions/1.md'', index_row ''decisions/2.md'']]"

definition short_overview_tree :: "string \<Rightarrow> mdnode" where
  "short_overview_tree u = md_block ''root'' 0
     [sample_heading 1 ''Documentation'', sample_heading 2 ''Handbook'',
      md_block ''table'' 0 [md_block ''tableRow'' 0 [], index_row u]]"

definition guide_tree :: mdnode where
  "guide_tree = md_block ''root'' 0
     [sample_heading 1 ''Guide'',
      md_block ''paragraph'' 0
        [md_link ''link'' ''../decisions/1.md#why'', md_link ''link'' ''https://go.dev'',
         md_link ''link'' ''../../main.go'', md_link ''image'' ''../../logo.png'']]"

definition sample_parse :: "string \<Rightarrow> mdnode" where
  "sample_parse s =
     (if s = ''overview'' then overview_tree
      else if s = ''guide'' then guide_tree
      else if s = ''hash'' then short_overview_tree ''handbook/a%23b.md''
      else if s = ''clash'' then short_overview_tree ''handbook/_category_.json/x.md''
      else md_block ''root'' 0 [md_leaf ''text'' s])"

definition sample_meta :: "string \<Rightarrow> string \<Rightarrow> (string \<times> jsval) list \<Rightarrow> jsval" where
  "sample_meta i coll kvs =
     JObj ([(''id'', JStr i), (''title'', JStr ''A title''), (''collection'', JStr coll)] @ kvs)"

definition sample_yaml :: "string \<Rightarrow> string + jsval" where
  "sample_yaml s =
     (if s = ''o'' then Inr (sample_meta ''docs'' ''overview'' [])
      else if s = ''g'' then Inr (sample_meta ''guide'' ''handbook''
        [(''sidebar_position'', JNum (NumInt 1)), (''related'', JArr [JStr ''ADR-001''])])
      else if s = ''h'' then Inr (sample_meta ''page'' ''handbook'' [(''sidebar_position'', JNum (NumInt 1))])
      else if s = ''a'' then Inr (sample_meta ''ADR-001'' ''decisions''
        [(''status'', JStr ''superseded''), (''date'', JStr ''2024-02-29''), (''superseded_by'', JStr ''ADR-002'')])
      else if s = ''b'' then Inr (sample_meta ''ADR-002'' ''decisions''
        [(''status'', JStr ''accepted''), (''date'', JStr ''2024-03-01'')])
      else Inl ''bad front matter'')"

definition sample_dump :: "jsval \<Rightarrow> (string \<times> jsval) list \<Rightarrow> string" where
  "sample_dump opts kvs = concat (map (\<lambda>(k, v). k @ [newline]) kvs)"

definition sample_text :: "string \<Rightarrow> string \<Rightarrow> string" where
  "sample_text m body = ''---'' @ [newline] @ m @ [newline] @ ''---'' @ [newline] @ body"

section \<open>Files and packages\<close>

text \<open>
  Three repositories: \<open>/r\<close> is a complete one; in \<open>/h\<close> a page has a number sign in its name, and
  in \<open>/k\<close> a documentation directory is named like a category file.
\<close>

definition sample_files :: "(segs \<times> fnode) list" where
  "sample_files =
     [([''h''], FDir), ([''h'', ''docs''], FDir), ([''h'', ''docs'', ''handbook''], FDir),
      ([''h'', ''docs'', ''README.md''], FFile (sample_text ''o'' ''hash'')),
      ([''h'', ''docs'', ''handbook'', ''a#b.md''], FFile (sample_text ''h'' ''page'')),
      ([''k''], FDir), ([''k'', ''docs''], FDir), ([''k'', ''docs'', ''handbook''], FDir),
      ([''k'', ''docs'', ''handbook'', ''_category_.json''], FDir),
      ([''k'', ''docs'', ''README.md''], FFile (sample_text ''o'' ''clash'')),
      ([''k'', ''docs'', ''handbook'', ''_category_.json'', ''x.md''], FFile (sample_text ''h'' ''page'')),
      ([''k'', ''pages''], FDir), ([''k'', ''pages'', ''docs''], FDir),
      ([''k'', ''pages'', ''docs'', ''old.md''], FFile ''stale''),
      ([], FDir), ([''r''], FDir), ([''r'', ''docs''], FDir), ([''r'', ''docs'', ''handbook''], FDir),
      ([''r'', ''docs'', ''decisions''], FDir), ([''r'', ''pages''], FDir), ([''r'', ''pages'', ''docs''], FDir),
      ([''r'', ''pages'', ''docs'', ''old.md''], FFile ''stale''),
      ([''r'', ''main.go''], FFile ''package main''), ([''r'', ''logo.png''], FFile ''png''),
      ([''r'', ''docs'', ''README.md''], FFile (sample_text ''o'' ''overview'')),
      ([''r'', ''docs'', ''handbook'', ''guide.md''], FFile (sample_text ''g'' ''guide'')),
      ([''r'', ''docs'', ''decisions'', ''1.md''], FFile (sample_text ''a'' ''first'')),
      ([''r'', ''docs'', ''decisions'', ''2.md''], FFile (sample_text ''b'' ''second''))]"

definition sample_fs :: fs where
  "sample_fs p = map_of sample_files p"

definition sample_glob :: "fs \<Rightarrow> segs \<Rightarrow> string list" where
  "sample_glob fs dir =
     filter (\<lambda>f. is_file fs (dir @ segments f)) [''2.md'', ''guide.md'', ''1.md'', ''a#b.md'', ''_category_.json/x.md'']"

definition sample_packages :: packages where
  "sample_packages =
     \<lparr>yaml_load = sample_yaml, yaml_dump = sample_dump, md_parse = sample_parse, md_stringify = nodeText,
      visit_order = preorder, glob_md = sample_glob, number_format = (\<lambda>n. [])\<rparr>"

definition sample_context :: build_context where
  "sample_context = \<lparr>x_repository = Some ''https://h/r'', x_revision = ''main'', x_dirty = False\<rparr>"

section \<open>Running the model\<close>

lemma sample_glob_ok: "glob_ok sample_packages"
  by (simp add: glob_ok_def sample_packages_def sample_glob_def plain_path_def segments_def plain_def suffix_def)

lemma sample_visits: "visits_preorder sample_packages"
  by (simp add: visits_preorder_def sample_packages_def)

definition sample_page :: "string \<Rightarrow> string \<Rightarrow> string \<Rightarrow> jsval \<Rightarrow> mdnode \<Rightarrow> page" where
  "sample_page s t c m tree = \<lparr>p_source = s, p_target = t, p_collection = c, p_metadata = m, p_tree = tree\<rparr>"

definition sample_overview :: page where
  "sample_overview =
     sample_page ''docs/README.md'' ''index.md'' ''overview'' (projr (sample_yaml ''o'')) overview_tree"

definition sample_guide :: page where
  "sample_guide =
     sample_page ''docs/handbook/guide.md'' ''handbook/guide.md'' ''handbook'' (projr (sample_yaml ''g'')) guide_tree"

definition sample_first :: page where
  "sample_first =
     sample_page ''docs/decisions/1.md'' ''decisions/1.md'' ''decisions'' (projr (sample_yaml ''a''))
       (sample_parse ''first'')"

definition sample_second :: page where
  "sample_second =
     sample_page ''docs/decisions/2.md'' ''decisions/2.md'' ''decisions'' (projr (sample_yaml ''b''))
       (sample_parse ''second'')"

definition sample_pages :: "page list" where
  "sample_pages = [sample_overview, sample_guide, sample_first, sample_second]"

definition sample_bundle :: doc_bundle where
  "sample_bundle =
     \<lparr>b_root = ''/r'', b_pages = sample_pages, b_ids = map (\<lambda>pg. (page_id pg, pg)) sample_pages,
      b_sources = map (\<lambda>pg. (p_source pg, pg)) sample_pages\<rparr>"

lemma sample_reads: "readPages sample_packages ''/'' sample_fs ''/r'' = Inr sample_pages"
  by code_simp

lemma sample_validates:
  "foldE (validatePage sample_packages ''/'' sample_fs ''/r'') ([], []) sample_pages =
   Inr (b_ids sample_bundle, b_sources sample_bundle)"
  by code_simp

lemma sample_references: "validateReferences sample_packages sample_pages (b_ids sample_bundle) = Inr ()"
  by code_simp

lemma sample_index:
  "validateIndex sample_packages ''/'' sample_fs ''/r'' sample_pages (b_sources sample_bundle) = Inr ()"
  by code_simp

lemma sample_loads: "loadDocumentation sample_packages ''/'' sample_fs ''/r'' = Inr sample_bundle"
  by (simp add: loadDocumentation_def sample_reads sample_validates sample_references sample_index)
    (simp add: sample_bundle_def)

definition sample_rendered :: "rendered list" where
  "sample_rendered = projr (renderAll sample_packages ''/'' sample_fs sample_bundle sample_context)"

lemma sample_renders:
  "renderAll sample_packages ''/'' sample_fs sample_bundle sample_context = Inr sample_rendered"
proof -
  have "isl (renderAll sample_packages ''/'' sample_fs sample_bundle sample_context) = False" by code_simp
  then show ?thesis unfolding sample_rendered_def by (metis sum.collapse(2))
qed

lemma map_of_mem_cases: "map_of xs k \<noteq> None \<Longrightarrow> list_all (\<lambda>x. P (fst x)) xs \<Longrightarrow> P k"
  by (induction xs) (auto split: if_splits)

lemma sample_wf: "fs_wf sample_fs"
proof -
  have all: "list_all (\<lambda>x. fst x = [] \<or> sample_fs (butlast (fst x)) = Some FDir) sample_files" by code_simp
  have "sample_fs p = Some FDir" if "sample_fs (p @ [x]) \<noteq> None" for p x
    using map_of_mem_cases [of sample_files "p @ [x]" "\<lambda>q. q = [] \<or> sample_fs (butlast q) = Some FDir"] that all
    by (simp add: sample_fs_def)
  then show ?thesis by (simp add: fs_wf_def) (simp add: sample_fs_def sample_files_def)
qed

lemma sample_no_category: "no_category_dir ''/'' sample_fs ''/r''"
  unfolding no_category_dir_def by code_simp

lemma sample_pages_dir: "\<not> is_file sample_fs (resolve_segs ''/'' [''/r''] @ [''pages''])"
  by code_simp

lemma sample_rendered_length: "length (map p_target (b_pages sample_bundle)) = 4"
  by code_simp

definition sample_tree :: mdnode where
  "sample_tree = projr (rewriteLinks sample_packages ''/'' sample_fs sample_bundle sample_guide sample_context)"

lemma sample_rewrites:
  "rewriteLinks sample_packages ''/'' sample_fs sample_bundle sample_guide sample_context = Inr sample_tree"
proof -
  have "isl (rewriteLinks sample_packages ''/'' sample_fs sample_bundle sample_guide sample_context) = False" by code_simp
  then show ?thesis unfolding sample_tree_def by (metis sum.collapse(2))
qed

lemma sample_guide_page: "sample_guide \<in> set (b_pages sample_bundle)"
  by (simp add: sample_bundle_def sample_pages_def)

text \<open>The complete site can be written.\<close>

lemma sample_ready: "ready sample_packages ''/'' sample_fs sample_context sample_bundle sample_rendered"
  using sample_glob_ok sample_wf sample_no_category sample_renders loadDocumentation_spec [OF sample_loads]
  by (simp add: ready_def)

definition sample_published :: fs where
  "sample_published = snd (assemble sample_packages ''/'' sample_fs ''/r'' sample_context)"

lemma sample_assembles:
  "assemble sample_packages ''/'' sample_fs ''/r'' sample_context = (Inr 4, sample_published)"
proof -
  have root: "b_root sample_bundle = ''/r''" by (simp add: sample_bundle_def)
  obtain fs' where "run_ops fs_step sample_fs (outputOps sample_packages ''/'' ''/r'' sample_bundle sample_rendered) = (None, fs')"
    using writing_succeeds [OF sample_ready] sample_pages_dir unfolding root by blast
  moreover have "length sample_rendered = 4"
    using renderAll_targets [OF sample_renders] by (metis length_map sample_rendered_length)
  ultimately show ?thesis by (simp add: sample_published_def assemble_def sample_loads sample_renders)
qed

section \<open>Sites with a defect\<close>

text \<open>The complete site where the image of the guide is a directory.\<close>

definition sample_fs_dir :: fs where
  "sample_fs_dir p = (if p = [''r'', ''logo.png''] then Some FDir else sample_fs p)"

lemma sample_dir_reads: "readPages sample_packages ''/'' sample_fs_dir ''/r'' = Inr sample_pages"
  by code_simp

lemma sample_dir_validates:
  "foldE (validatePage sample_packages ''/'' sample_fs_dir ''/r'') ([], []) sample_pages =
   Inr (b_ids sample_bundle, b_sources sample_bundle)"
  by code_simp

lemma sample_dir_index:
  "validateIndex sample_packages ''/'' sample_fs_dir ''/r'' sample_pages (b_sources sample_bundle) = Inr ()"
  by code_simp

lemma sample_dir_loads: "loadDocumentation sample_packages ''/'' sample_fs_dir ''/r'' = Inr sample_bundle"
  by (simp add: loadDocumentation_def sample_dir_reads sample_dir_validates sample_references sample_dir_index)
    (simp add: sample_bundle_def)

text \<open>A page below a category file.\<close>

definition clash_bundle :: doc_bundle where
  "clash_bundle = projr (loadDocumentation sample_packages ''/'' sample_fs ''/k'')"

definition clash_rendered :: "rendered list" where
  "clash_rendered = projr (renderAll sample_packages ''/'' sample_fs clash_bundle sample_context)"

lemma clash_loads: "loadDocumentation sample_packages ''/'' sample_fs ''/k'' = Inr clash_bundle"
proof -
  have "isl (loadDocumentation sample_packages ''/'' sample_fs ''/k'') = False" by code_simp
  then show ?thesis unfolding clash_bundle_def by (metis sum.collapse(2))
qed

lemma clash_renders: "renderAll sample_packages ''/'' sample_fs clash_bundle sample_context = Inr clash_rendered"
proof -
  have "isl (renderAll sample_packages ''/'' sample_fs clash_bundle sample_context) = False" by code_simp
  then show ?thesis unfolding clash_rendered_def by (metis sum.collapse(2))
qed

text \<open>
  A name with a number sign. The overview may link to the page only with the sign encoded;
  the published overview has it unencoded, and a reader of that link never finds the page.
\<close>

definition hash_bundle :: doc_bundle where
  "hash_bundle = projr (loadDocumentation sample_packages ''/'' sample_fs ''/h'')"

lemma hash_loads: "loadDocumentation sample_packages ''/'' sample_fs ''/h'' = Inr hash_bundle"
proof -
  have "isl (loadDocumentation sample_packages ''/'' sample_fs ''/h'') = False" by code_simp
  then show ?thesis unfolding hash_bundle_def by (metis sum.collapse(2))
qed

lemma hash_link_published:
  "map p_target (b_pages hash_bundle) = [''index.md'', ''handbook/a#b.md'']"
  "(case rewriteLinks sample_packages ''/'' sample_fs hash_bundle (hd (b_pages hash_bundle)) sample_context of
      Inl e \<Rightarrow> None | Inr tree \<Rightarrow> url_at tree [2, 1, 0, 0]) = Some ''./handbook/a#b.md''"
  by code_simp+

lemma hash_link_misses:
  assumes "p_source pg = ''index.md''"
    and "localTarget ''/'' fs (outputDirectory ''/h'') pg (Some ''./handbook/a#b.md'') = Inr (Some t)"
  shows "t_source t = ''handbook/a''"
proof -
  obtain ss where ss: "resolve_segs ''/'' [outputDirectory ''/h'', ''.'', ''./handbook/a''] =
      resolve_segs ''/'' [outputDirectory ''/h''] @ ss" "t_source t = of_segs ss"
  proof -
    have "decodeURIComponent (url_path ''./handbook/a#b.md'') = Some ''./handbook/a''" "path_dirname ''index.md'' = ''.''"
      by code_simp+
    with assms that show thesis by (elim localTarget_inside) auto
  qed
  have "resolve_segs ''/'' [outputDirectory ''/h'', ''.'', ''./handbook/a''] =
      resolve_segs ''/'' [outputDirectory ''/h''] @ [''handbook'', ''a'']" by code_simp
  with ss have "t_source t = of_segs [''handbook'', ''a'']" by simp
  then show ?thesis by (simp add: of_segs_def)
qed

end
