(* ===== verification/SiteConfig.thy ===== *)
theory SiteConfig
  imports DocContext
begin

text \<open>
  The configuration of the published site: \<open>pages/docusaurus.config.ts\<close> and \<open>pages/sidebars.ts\<close>
  as values. The Prism themes and the path \<open>require.resolve\<close> finds for the search plugin come
  from packages and are arguments. What the site build does with these values is not
  modelled; the consistency lemma at the end only relates settings that must agree.
\<close>

section \<open>The configuration\<close>

abbreviation js_strings :: "string list \<Rightarrow> jsval" where
  "js_strings xs \<equiv> JArr (map JStr xs)"

definition markdownConfig :: jsval where
  "markdownConfig =
     JObj [(''format'', JStr ''detect''), (''mermaid'', JBool True),
           (''hooks'', JObj [(''onBrokenMarkdownLinks'', JStr ''throw'')])]"

definition sitePresets :: jsval where
  "sitePresets = JArr
     [JArr [JStr ''classic'',
        JObj [(''docs'', JObj [(''sidebarPath'', JStr ''./sidebars.ts''), (''routeBasePath'', JStr ''/''),
                             (''sidebarCollapsible'', JBool True), (''sidebarCollapsed'', JBool False)]),
              (''blog'', JBool False),
              (''theme'', JObj [(''customCss'', JStr ''./src/css/custom.css'')])]],
      JArr [JStr ''redocusaurus'',
        JObj [(''specs'', JArr [JObj [(''id'', JStr ''api-v1''), (''spec'', JStr ''../api/openapi/v1/.combined.yaml''),
                                    (''route'', JStr ''/api/v1'')]]),
              (''theme'', JObj [(''primaryColor'', JStr ''#0969da'')])]]]"

definition siteThemes :: "string \<Rightarrow> jsval" where
  "siteThemes searchPlugin = JArr
     [JStr ''@docusaurus/theme-mermaid'',
      JArr [JStr searchPlugin,
        JObj [(''hashed'', JBool True), (''language'', js_strings [''en'']), (''indexDocs'', JBool True),
              (''indexBlog'', JBool False), (''docsRouteBasePath'', JStr ''/''),
              (''highlightSearchTermsOnTargetPage'', JBool True)]]]"

definition navbarConfig :: jsval where
  "navbarConfig = JObj
     [(''title'', JStr ''Documentation''),
      (''logo'', JObj [(''alt'', JStr ''logo''), (''src'', JStr ''img/go42-logo.svg'')]),
      (''items'', JArr
         [JObj [(''type'', JStr ''dropdown''), (''label'', JStr ''OpenAPI''), (''position'', JStr ''left''),
                (''items'', JArr [JObj [(''label'', JStr ''Version 1''), (''to'', JStr ''/api/v1'')]])],
          JObj [(''type'', JStr ''search''), (''position'', JStr ''right'')]])]"

definition themeConfig :: "jsval \<Rightarrow> jsval \<Rightarrow> jsval" where
  "themeConfig github dracula = JObj
     [(''image'', JStr ''img/go42-logo.svg''),
      (''docs'', JObj [(''sidebar'', JObj [(''hideable'', JBool True), (''autoCollapseCategories'', JBool True)])]),
      (''navbar'', navbarConfig),
      (''prism'', JObj [(''theme'', github), (''darkTheme'', dracula),
                      (''additionalLanguages'', js_strings [''go'', ''bash'', ''json'', ''yaml'', ''docker''])])]"

definition siteConfig :: "(string \<Rightarrow> string option) \<Rightarrow> string \<Rightarrow> jsval \<Rightarrow> jsval \<Rightarrow> jsval" where
  "siteConfig env searchPlugin github dracula = JObj
     [(''title'', JStr (or_else (env ''DOCUSAURUS_TITLE'') ''go42'')),
      (''url'', JStr (or_else (env ''DOCUSAURUS_URL'') ''https://go42-dev.github.io'')),
      (''baseUrl'', JStr (or_else (env ''DOCUSAURUS_BASE_URL'') ''/go42/'')),
      (''favicon'', JStr ''img/go42-logo.svg''),
      (''onBrokenLinks'', JStr ''throw''),
      (''onBrokenAnchors'', JStr ''throw''),
      (''markdown'', markdownConfig),
      (''i18n'', JObj [(''defaultLocale'', JStr ''en''), (''locales'', js_strings [''en''])]),
      (''future'', JObj [(''v4'', JBool True)]),
      (''presets'', sitePresets),
      (''themes'', siteThemes searchPlugin),
      (''themeConfig'', themeConfig github dracula)]"

definition sidebars :: jsval where
  "sidebars =
     JObj [(''tutorialSidebar'', JArr [JObj [(''type'', JStr ''autogenerated''), (''dirName'', JStr ''.'')]])]"

section \<open>Reading the configuration\<close>

fun at_path :: "jsval \<Rightarrow> string list \<Rightarrow> jsval" where
  "at_path v [] = v"
| "at_path v (k # ks) = at_path (prop_of v k) ks"

fun all_strings_at :: "string \<Rightarrow> jsval \<Rightarrow> string list" where
  "all_strings_at k (JArr vs) = concat (map (all_strings_at k) vs)"
| "all_strings_at k (JObj kvs) =
     concat (map (\<lambda>kv. (if fst kv = k then (case snd kv of JStr s \<Rightarrow> [s] | _ \<Rightarrow> []) else []) @
                       all_strings_at k (snd kv)) kvs)"
| "all_strings_at k _ = []"

text \<open>
  In every environment the address settings are not empty, search indexes the documentation
  where the preset serves it, and every navigation link is a route of a preset.
\<close>

lemma siteConfig_consistent:
  "let config = siteConfig env searchPlugin github dracula in
   all_strings_at ''docsRouteBasePath'' (at_path config [''themes'']) =
     all_strings_at ''routeBasePath'' (at_path config [''presets'']) \<and>
   set (all_strings_at ''to'' (at_path config [''themeConfig'', ''navbar''])) \<subseteq>
     set (all_strings_at ''route'' (at_path config [''presets''])) \<and>
   list_all (\<lambda>k. truthy (at_path config [k])) [''title'', ''url'', ''baseUrl'']"
  by (auto simp: Let_def siteConfig_def prop_of_def sitePresets_def siteThemes_def
      themeConfig_def navbarConfig_def or_else_def nonempty_def split: option.splits)

end
