(* ===== verification/Spec2Isabelle.thy ===== *)
theory Spec2Isabelle
  imports SampleSite SiteConfig
begin

text \<open>
  \<^bold>\<open>Verification of the go42 documentation assembler.\<close>

  The JavaScript part of go42 is the documentation site under \<open>src/pages\<close>. Its program is
  \<open>assemble.mjs\<close>: it reads the Markdown sources under \<open>docs/\<close>, validates their metadata, the
  references between them, their links and the index in the overview, renders every page for
  the published site, and replaces the generated directory \<open>pages/docs\<close>. The site generator
  then builds what it finds there under the configuration in \<open>docusaurus.config.ts\<close> and
  \<open>sidebars.ts\<close>.

  \<^bold>\<open>Parts and theories.\<close> A fallible function returns a value of \<open>doc_error + 'a\<close>; \<open>Inl\<close> is the
  thrown error, one constructor per message of the source, and \<open>error_message\<close> prints it. Code
  runs in the order of the source through \<open>bindE\<close>, \<open>foldE\<close> and \<open>mapE\<close>.

  \<^item> \<open>Prelude\<close>: sequencing of fallible code, loops with an invariant (locale \<open>validating_loop\<close>),
    the ECMAScript \<open>Map\<close> (locale \<open>js_map\<close>, interpreted by association lists).
  \<^item> \<open>JsString\<close>, \<open>UriComponent\<close>, \<open>JsValue\<close>, \<open>WebUrl\<close>, \<open>PosixPath\<close>, \<open>CivilDate\<close>: the part of the
    ECMAScript and Node libraries the source uses. Strings are UTF-8 byte strings; \<open>trim\<close>,
    \<open>slice\<close> and \<open>sort\<close> work on code points and UTF-16 units. \<open>PosixPath\<close> also has the helpers
    \<open>relative\<close> and \<open>repositoryPath\<close>; \<open>CivilDate\<close> has the date test of \<open>validateMetadata\<close>.
  \<^item> \<open>Markdown\<close>: the syntax tree with positions, \<open>nodeText\<close>, and passes that overwrite the \<open>url\<close> of
    nodes in place (locale \<open>url_tree\<close>).
  \<^item> \<open>FileSystem\<close>: a map from absolute paths to files and directories, the operations \<open>rmSync\<close>,
    \<open>mkdirSync\<close> and \<open>writeFileSync\<close> with their errors, sequences of them that stop at the first
    failure (locale \<open>framed_machine\<close>), and when a sequence succeeds.
  \<^item> \<open>DocPage\<close>: \<open>readPage\<close>, \<open>validateMetadata\<close>, \<open>validateReferences\<close>, with the specification
    \<open>page_spec\<close> of a valid page and \<open>replacement_chain\<close> of replacements.
  \<^item> \<open>DocLinks\<close>: \<open>localTarget\<close> and \<open>sourceURL\<close>. \<open>DocIndex\<close>: \<open>validateIndex\<close>, with \<open>index_spec\<close>.
  \<^item> \<open>DocLoad\<close>: \<open>loadDocumentation\<close>; \<open>bundle_spec\<close> is what later phases rely on.
  \<^item> \<open>DocContext\<close>: \<open>git\<close> and \<open>buildContext\<close>. \<open>DocRender\<close>: \<open>renderPage\<close>. \<open>DocAssemble\<close>: \<open>assemble\<close>
    and the command line. \<open>SiteConfig\<close>: the values of the site configuration.
  \<^item> \<open>SampleSite\<close>: a small documentation tree on which the model is evaluated, with variants
    that have a defect; the witnesses below use them.

  \<^bold>\<open>Interaction.\<close> \<open>main\<close> calls \<open>assembleDefault\<close> or, with \<open>--check\<close>, \<open>loadDocumentation\<close>;
  \<open>assemble\<close> loads, renders all pages from the same file system state, and only then runs the
  operations of \<open>outputOps\<close>. Pages are shared between the bundle's list and its two maps; the
  trees that rendering changes in place belong to one page each and are not read again, so
  rendering returns the changed tree.

  \<^bold>\<open>Arguments of the model.\<close> The packages \<open>js-yaml\<close>, \<open>remark\<close>, \<open>unist-util-visit\<close> and \<open>glob\<close> and the
  engine's formatting of fractional numbers are the fields of \<open>packages\<close>; the environment, the
  \<open>git\<close> executable and the host parser of \<open>URL\<close> are those of \<open>platform\<close>; the working directory is
  an argument of path resolution. Hypotheses on them are \<open>visits_preorder\<close> (the documented
  order of \<open>visit\<close>), \<open>glob_ok\<close> (distinct plain paths of files ending in \<open>.md\<close>) and \<open>host_clean\<close> (a
  host has no authority delimiter). \<open>SampleSite\<close> and \<open>sample_platform\<close> satisfy them.

  \<^bold>\<open>Hypotheses on the repository.\<close> Where a theorem speaks of the file system after a successful
  run, the file system before is well formed (\<open>fs_wf\<close>: every file lies in a directory) and no
  collection has a documentation directory named \<open>_category_.json\<close> (\<open>no_category_dir\<close>); for
  success \<open>pages\<close> must also not be a file. The code checks neither: with a page in such a
  directory it removes the old site and then fails (\<open>assemble_category_conflict\<close>). Published
  relative links are not percent-encoded, so the theorems on where they lead are stated for
  paths without \<open>%\<close>, \<open>?\<close> and \<open>#\<close> (\<open>url_literal\<close>); \<open>hash_link_misses\<close> is a page that is
  published under a link that does not lead to it.

  \<^bold>\<open>What the theorems show.\<close> Of writing: success and the exact contents of \<open>pages/docs\<close>, no
  change on validation or rendering errors, the frame, the conflict above and the page count.
  Of loading: the exact set of pages, metadata, references, index and links, each validator
  proved equivalent to a specification of the rules it enforces (of the documented rules it
  does not enforce three, listed at \<open>page_spec\<close>), and termination of the replacement loop (a
  \<open>function\<close> with a measure, so no fuel is used anywhere). Of rendering: which errors remain
  after loading, where published links lead when they are read as links, that nothing else
  changes, that source addresses and front matter read back. Of the context: no credentials
  are published and which setting wins. Of the command line: what is printed and the exit code.

  \<^bold>\<open>Not modelled.\<close> Symbolic links, permissions and I/O failures other than missing or
  conflicting paths; the bodies of the packages; what the site build does with its
  configuration; the Go services, generated SDKs, load tests and deployment files of the
  repository. Metadata is a tree (\<open>jsval\<close>) and \<open>yaml_dump\<close> is total: a YAML alias that makes a
  value contain itself, on which the printer of the package does not end normally, is not
  represented. \<open>index_order\<close> is exact on pages that passed \<open>validateMetadata\<close>, the only ones
  the code compares. \<open>toLowerCase\<close> on headings is exact for names that can equal a collection
  name. Next in line are the load tests' request flow and the Go authentication core.
\<close>

section \<open>Writing the site\<close>

text \<open>
  C1: when loading and rendering succeed, \<open>pages\<close> is not a file and no collection has a
  documentation directory named \<open>_category_.json\<close>, \<open>assemble\<close> succeeds (on a well-formed file
  system, with a \<open>glob\<close> as documented): it returns the number of pages, and afterwards
  \<open>pages/docs\<close> holds exactly the rendered pages at their targets, the category files and the
  placeholders of empty record collections, and the directories these need. Whatever the
  directory held before is gone.
\<close>
theorem assemble_total:
  assumes "glob_ok pkg" "fs_wf fs" "no_category_dir cwd fs root"
    and "\<not> is_file fs (resolve_segs cwd [root] @ [''pages''])"
    and "loadDocumentation pkg cwd fs root = Inr b" "renderAll pkg cwd fs b context = Inr rs"
  shows "\<exists>fs'. assemble pkg cwd fs root context = (Inr (length (b_pages b)), fs') \<and>
    (\<forall>x. fs' (out_segs cwd root @ x) =
       (case map_of (output_files pkg b rs) x of
          Some t \<Rightarrow> Some (FFile t)
        | None \<Rightarrow> if x = [] \<or> (\<exists>q t. (q, t) \<in> set (output_files pkg b rs) \<and> strict_prefix x q)
                  then Some FDir else None))"
proof -
  have root: "b_root b = root" using loadDocumentation_spec(2) [OF assms(5)] .
  have r: "ready pkg cwd fs context b rs"
    using assms loadDocumentation_spec [OF assms(5)] by (simp add: ready_def)
  obtain fs' where run: "run_ops fs_step fs (outputOps pkg cwd root b rs) = (None, fs')"
    using writing_succeeds [OF r] assms(4) unfolding root by blast
  have "length rs = length (b_pages b)" using renderAll_targets [OF assms(6)] by (metis length_map)
  with assms(5,6) run have "assemble pkg cwd fs root context = (Inr (length (b_pages b)), fs')"
    by (simp add: assemble_def)
  with generated_tree [OF r] run show ?thesis unfolding root by blast
qed

theorem assemble_total_witness:
  "\<exists>fs'. assemble sample_packages ''/'' sample_fs ''/r'' sample_context = (Inr 4, fs') \<and>
     fs' [''r'', ''pages'', ''docs'', ''old.md''] = None \<and>
     fs' [''r'', ''pages'', ''docs'', ''handbook''] = Some FDir"
proof -
  have out: "out_segs ''/'' ''/r'' = [''r'', ''pages'', ''docs'']" by code_simp
  let ?files = "output_files sample_packages sample_bundle sample_rendered"
  have paths: "map fst ?files =
      [[''index.md''], [''handbook'', ''guide.md''], [''decisions'', ''1.md''], [''decisions'', ''2.md''],
       [''handbook'', ''_category_.json''], [''requirements'', ''index.md''], [''requirements'', ''_category_.json''],
       [''decisions'', ''_category_.json''], [''templates'', ''_category_.json'']]" (is "_ = ?ps")
    by code_simp
  then have keys: "fst ` set ?files = set ?ps" by (metis list.set_map)
  have "map_of ?files [''old.md''] = None" "map_of ?files [''handbook''] = None"
    unfolding map_of_eq_None_iff keys by simp_all
  moreover have "\<not> (\<exists>q t. (q, t) \<in> set ?files \<and> strict_prefix [''old.md''] q)"
  proof -
    have "\<not> (\<exists>q\<in>fst ` set ?files. strict_prefix [''old.md''] q)"
      unfolding keys by (simp add: strict_prefix_def)
    then show ?thesis by force
  qed
  moreover have "\<exists>q t. (q, t) \<in> set ?files \<and> strict_prefix [''handbook''] q"
  proof -
    have "\<exists>q\<in>fst ` set ?files. strict_prefix [''handbook''] q"
      unfolding keys by (simp add: strict_prefix_def)
    then show ?thesis by force
  qed
  moreover have "length (b_pages sample_bundle) = 4" by code_simp
  moreover obtain fs' where
    "assemble sample_packages ''/'' sample_fs ''/r'' sample_context = (Inr (length (b_pages sample_bundle)), fs')"
    and tree: "\<And>x. fs' (out_segs ''/'' ''/r'' @ x) =
       (case map_of ?files x of
          Some t \<Rightarrow> Some (FFile t)
        | None \<Rightarrow> if x = [] \<or> (\<exists>q t. (q, t) \<in> set ?files \<and> strict_prefix x q) then Some FDir else None)"
    using assemble_total [OF sample_glob_ok sample_wf sample_no_category sample_pages_dir sample_loads sample_renders]
    by blast
  ultimately show ?thesis
    using tree [of "[''old.md'']"] tree [of "[''handbook'']"] by (simp add: out)
qed

text \<open>
  C2: \<open>assemble\<close> validates before it replaces anything: whenever it fails, either the error is
  one of loading or rendering and the file system is exactly as before, or loading and
  rendering had both succeeded and the error is one of the file system, from writing.
\<close>
theorem assemble_failure:
  assumes "assemble pkg cwd fs root context = (Inl e, fs')"
  shows "fs' = fs \<and> (loadDocumentation pkg cwd fs root = Inl e \<or>
        (\<exists>b. loadDocumentation pkg cwd fs root = Inr b \<and> renderAll pkg cwd fs b context = Inl e)) \<or>
      (\<exists>b rs c d. loadDocumentation pkg cwd fs root = Inr b \<and> renderAll pkg cwd fs b context = Inr rs \<and>
         e = FsError c d)"
  using assms by (rule assemble_Inl)

theorem assemble_failure_witness:
  "assemble sample_packages ''/'' sample_fs ''/r'' (sample_context\<lparr>x_repository := None\<rparr>) = (Inl NoRepository, sample_fs)"
proof -
  have "renderAll sample_packages ''/'' sample_fs sample_bundle (sample_context\<lparr>x_repository := None\<rparr>) = Inl NoRepository"
    by code_simp
  then have "\<exists>fs'. assemble sample_packages ''/'' sample_fs ''/r'' (sample_context\<lparr>x_repository := None\<rparr>) = (Inl NoRepository, fs')"
    by (simp add: assemble_def sample_loads)
  then show ?thesis using assemble_failure by fastforce
qed

text \<open>
  C3: frame. Successful or not, \<open>assemble\<close> changes nothing outside \<open>pages/docs\<close>; at most it
  creates missing directories above it.
\<close>
theorem assemble_frame:
  assumes "glob_ok pkg" "assemble pkg cwd fs root context = (r, fs')" "\<not> prefix (out_segs cwd root) q"
  shows "fs' q = fs q \<or> fs q = None \<and> prefix q (out_segs cwd root) \<and> fs' q = Some FDir"
  using assms by (rule assemble_outside)

theorem assemble_frame_witness:
  "snd (assemble sample_packages ''/'' sample_fs ''/r'' sample_context) [''r'', ''main.go''] =
   Some (FFile ''package main'')"
proof -
  have "\<not> prefix (out_segs ''/'' ''/r'') [''r'', ''main.go'']" "sample_fs [''r'', ''main.go''] = Some (FFile ''package main'')"
    by code_simp+
  with assemble_frame [of sample_packages "''/''" sample_fs "''/r''" sample_context _ _ "[''r'', ''main.go'']",
      OF sample_glob_ok surjective_pairing]
  show ?thesis by simp
qed

text \<open>
  C19: a documentation directory named like a category file passes every check but cannot be
  published: when loading and rendering succeed and a page lies below
  \<open>docs/<collection>/_category_.json\<close>, \<open>assemble\<close> fails with an error of the file system, and by
  then the old site is removed: of the previous contents of \<open>pages/docs\<close> nothing is left that
  is not on the path of a new file.
\<close>
theorem assemble_category_conflict:
  assumes "glob_ok pkg" "loadDocumentation pkg cwd fs root = Inr b" "renderAll pkg cwd fs b context = Inr rs"
    and "pg \<in> set (b_pages b)" "c \<in> set collections"
    and "strict_prefix [c_name c, ''_category_.json''] (segments (p_target pg))"
  shows "\<exists>k d fs'. assemble pkg cwd fs root context = (Inl (FsError k d), fs') \<and>
    (\<forall>x. x \<noteq> [] \<and> \<not> (\<exists>q t. (q, t) \<in> set (output_files pkg b rs) \<and> prefix x q) \<longrightarrow>
       fs' (out_segs cwd root @ x) = None)"
proof -
  note plain = rendered_plain [OF assms(1) loadDocumentation_spec(1) [OF assms(2)] assms(3)]
  obtain t where r: "\<lparr>r_target = p_target pg, r_text = t\<rparr> \<in> set rs" using renderAll_page [OF assms(3,4)] by blast
  obtain e fs' where run: "run_ops fs_step fs (outputOps pkg cwd root b rs) = (e, fs')" by force
  have "e \<noteq> None"
    using category_conflict [OF plain r assms(5)] assms(6) run by (simp add: outputOps_split)
  then obtain k d where "e = Some (FsError k d)" using run_fs_error run by blast
  moreover have "fs' (out_segs cwd root @ x) = None"
    if "x \<noteq> []" "\<not> (\<exists>q t. (q, t) \<in> set (output_files pkg b rs) \<and> prefix x q)" for x
    using stale_removed [OF plain that, of fs cwd root] by (simp add: run)
  ultimately show ?thesis using assms(2,3) run by (auto simp: assemble_def)
qed

theorem assemble_category_conflict_witness:
  "\<exists>k d fs'. assemble sample_packages ''/'' sample_fs ''/k'' sample_context = (Inl (FsError k d), fs') \<and>
     fs' [''k'', ''pages'', ''docs'', ''old.md''] = None"
proof -
  let ?files = "output_files sample_packages clash_bundle clash_rendered"
  let ?pg = "b_pages clash_bundle ! 1" and ?c = "hd collections"
  have c: "?c \<in> set collections" "strict_prefix [c_name ?c, ''_category_.json''] (segments (p_target ?pg))"
    and n: "1 < length (b_pages clash_bundle)" and out: "out_segs ''/'' ''/k'' = [''k'', ''pages'', ''docs'']"
    and "list_all (\<lambda>x. \<not> prefix [''old.md''] (fst x)) ?files"
    by code_simp+
  then have "\<not> (\<exists>q t. (q, t) \<in> set ?files \<and> prefix [''old.md''] q)" by (force simp: list_all_iff)
  with assemble_category_conflict [OF sample_glob_ok clash_loads clash_renders nth_mem [OF n] c]
  show ?thesis unfolding out by fastforce
qed

text \<open>
  C20: the number \<open>assemble\<close> returns is one for the overview plus the number of Markdown files
  of the collections: no page is dropped or published twice.
\<close>
theorem assemble_counts:
  assumes "assemble pkg cwd fs root context = (Inr n, fs')"
  shows "n = 1 + sum_list (map (\<lambda>c. length (collectionFiles pkg cwd fs root (c_name c))) collections)"
proof -
  obtain b where "loadDocumentation pkg cwd fs root = Inr b" "n = length (b_pages b)"
    using assms by (rule assemble_Inr)
  then show ?thesis using loaded_count by simp
qed

theorem assemble_counts_witness:
  "4 = 1 + sum_list (map (\<lambda>c. length (collectionFiles sample_packages ''/'' sample_fs ''/r'' (c_name c))) collections)"
  by (rule assemble_counts [OF sample_assembles])

section \<open>Loaded documentation\<close>

text \<open>
  C4: a loaded bundle has the overview and every Markdown file of the collections, in order;
  every page satisfies the metadata rules, identifiers are unique, and the two maps find each
  page by its identifier and by its source path.
\<close>
theorem load_pages:
  assumes "loadDocumentation pkg cwd fs root = Inr b"
  shows "map p_source (b_pages b) =
      ''docs/README.md'' # concat (map (collection_sources pkg cwd fs root) collections) \<and>
    distinct (map page_id (b_pages b)) \<and>
    (\<forall>pg. pg \<in> set (b_pages b) \<longleftrightarrow> map_get (b_ids b) (page_id pg) = Some pg) \<and>
    (\<forall>pg. pg \<in> set (b_pages b) \<longleftrightarrow> map_get (b_sources b) (p_source pg) = Some pg) \<and>
    list_all page_spec (b_pages b)"
proof -
  have b: "bundle_spec pkg cwd fs b" using loadDocumentation_spec(1) [OF assms] .
  then have ids: "ids_of (b_ids b) (b_pages b)" and dist: "distinct (map page_id (b_pages b))"
    and src: "sources_of (b_sources b) (b_pages b)"
    by (simp_all add: bundle_spec_def validated_def)
  have "pg \<in> set (b_pages b) \<longleftrightarrow> map_get (b_ids b) (page_id pg) = Some pg" for pg
    using ids_of_get [OF ids] ids_of_mem [OF ids] by blast
  moreover have "pg \<in> set (b_pages b) \<longleftrightarrow> map_get (b_sources b) (p_source pg) = Some pg" for pg
    using src bundle_sources [OF b] unfolding sources_of_def by blast
  moreover have "list_all page_spec (b_pages b)" using ids_of_spec [OF ids] by (simp add: list_all_iff)
  ultimately show ?thesis
    using dist readPages_sources [OF loadDocumentation_pages [OF assms]] by blast
qed

theorem load_pages_witness: "list_all page_spec (b_pages sample_bundle)"
  using load_pages [OF sample_loads] by simp

text \<open>
  C9: replacements. In a loaded bundle, following \<open>superseded_by\<close> from a superseded decision
  takes finitely many steps and ends at an accepted decision of the bundle.
\<close>
theorem load_superseded:
  assumes "loadDocumentation pkg cwd fs root = Inr b" "pg \<in> set (b_pages b)"
    and "p_collection pg = ''decisions''" "meta pg ''status'' = JStr ''superseded''"
  shows "\<exists>n r. replacement_chain (b_ids b) pg (Suc n) r \<and> r \<in> set (b_pages b) \<and>
    p_collection r = ''decisions'' \<and> meta r ''status'' = JStr ''accepted''"
  using superseded_ends [OF loadDocumentation_spec(1)] assms by blast

theorem load_superseded_witness:
  "\<exists>n r. replacement_chain (b_ids sample_bundle) sample_first (Suc n) r \<and> r \<in> set (b_pages sample_bundle) \<and>
    p_collection r = ''decisions'' \<and> meta r ''status'' = JStr ''accepted''"
proof (rule load_superseded [OF sample_loads])
  show "sample_first \<in> set (b_pages sample_bundle)" by (simp add: sample_bundle_def sample_pages_def)
  show "p_collection sample_first = ''decisions''" "meta sample_first ''status'' = JStr ''superseded''" by code_simp+
qed

text \<open>
  C11: in a loaded bundle the overview's index of each collection lists every page of the
  collection exactly once and nothing else, and the handbook, requirements and decisions are
  in strictly ascending order of sidebar position or record number.
\<close>
theorem load_index:
  assumes "loadDocumentation pkg cwd fs root = Inr b" "c \<in> set collections"
  shows "\<exists>entries xs. indexEntries pkg cwd fs root (hd (b_pages b)) (b_sources b) = Inr entries \<and>
    map_get entries (c_name c) = Some xs \<and> distinct xs \<and>
    set xs = {pg \<in> set (b_pages b). p_collection pg = c_name c} \<and>
    (c_name c \<noteq> ''templates'' \<longrightarrow> sorted_wrt (<) (map (index_order (c_name c)) xs))"
proof -
  have "bundle_spec pkg cwd fs b" "b_root b = root" using loadDocumentation_spec [OF assms(1)] by auto
  then obtain entries where e: "indexEntries pkg cwd fs root (hd (b_pages b)) (b_sources b) = Inr entries"
    "\<forall>c\<in>set collections. \<exists>xs. map_get entries (c_name c) = Some xs \<and> index_spec (b_pages b) (c_name c) xs"
    by (auto simp: bundle_spec_def)
  with assms(2) show ?thesis unfolding index_spec_def by blast
qed

theorem load_index_witness:
  "\<exists>entries xs. indexEntries sample_packages ''/'' sample_fs ''/r'' (hd (b_pages sample_bundle)) (b_sources sample_bundle)
      = Inr entries \<and>
    map_get entries (c_name (collections ! 2)) = Some xs \<and> distinct xs \<and>
    set xs = {pg \<in> set (b_pages sample_bundle). p_collection pg = c_name (collections ! 2)} \<and>
    (c_name (collections ! 2) \<noteq> ''templates'' \<longrightarrow> sorted_wrt (<) (map (index_order (c_name (collections ! 2))) xs))"
  by (rule load_index [OF sample_loads]) (simp add: collections_def)

text \<open>
  C6: every local link, image and definition of a loaded page, at any depth of its tree,
  decodes to a path that stays in the repository and exists there.
\<close>
theorem load_links:
  assumes "visits_preorder pkg" "loadDocumentation pkg cwd fs root = Inr b" "pg \<in> set (b_pages b)"
    and "node_at (p_tree pg) pos = Some n" "md_type n \<in> {''link'', ''image'', ''definition''}"
    and "md_url n = Some u" "local_url u"
  shows "\<exists>decoded ss. decodeURIComponent (url_path u) = Some decoded \<and>
    resolve_segs cwd [root, path_dirname (p_source pg), decoded] = resolve_segs cwd [root] @ ss \<and>
    fs (resolve_segs cwd [root] @ ss) \<noteq> None"
proof -
  note spec = loadDocumentation_spec [OF assms(2)]
  have "n \<in> set (visit_nodes pkg (p_tree pg) link_types)"
    using visit_nodes_preorder [OF assms(1)] assms(4,5) by (auto simp: link_types_def)
  then obtain t where "localTarget cwd fs root pg (md_url n) = Inr t"
    using bundle_page(2) [OF spec(1) assms(3)] unfolding spec(2) links_ok_def by blast
  then have "\<exists>t. localTarget cwd fs root pg (Some u) = Inr (Some t)"
    using assms(6,7) by (auto simp: localTarget_local Let_def split: option.splits if_splits)
  then show ?thesis by (auto elim!: localTarget_inside)
qed

theorem load_links_witness:
  "\<exists>decoded ss. decodeURIComponent (url_path ''../../main.go'') = Some decoded \<and>
    resolve_segs ''/'' [''/r'', path_dirname (p_source sample_guide), decoded] = resolve_segs ''/'' [''/r''] @ ss \<and>
    sample_fs (resolve_segs ''/'' [''/r''] @ ss) \<noteq> None"
proof (rule load_links [OF sample_visits sample_loads])
  show "sample_guide \<in> set (b_pages sample_bundle)" by (rule sample_guide_page)
  show "node_at (p_tree sample_guide) [1, 2] = Some (md_link ''link'' ''../../main.go'')" "local_url ''../../main.go''"
    by code_simp+
qed (simp_all add: md_link_def)

text \<open>
  C8: \<open>validateReferences\<close> accepts validated pages exactly if every related identifier is known
  and every chain of replacements consists of accepted or superseded decisions and ends; its
  loop terminates on every input, and cycles are what it rejects.
\<close>
theorem validateReferences_accepts:
  assumes "ids_of ids pages"
  shows "validateReferences pkg pages ids = Inr () \<longleftrightarrow>
    (\<forall>pg\<in>set pages. (\<forall>i\<in>set (related_ids pg). map_has ids i) \<and> (\<exists>n r. replacement_chain ids pg n r))"
  using assms by (rule validateReferences_iff)

theorem validateReferences_accepts_witness:
  "\<exists>n r. replacement_chain (b_ids sample_bundle) sample_first n r"
proof -
  have "ids_of (b_ids sample_bundle) (b_pages sample_bundle)"
    using loadDocumentation_spec(1) [OF sample_loads] by (simp add: bundle_spec_def validated_def)
  then have "ids_of (b_ids sample_bundle) sample_pages" by (simp add: sample_bundle_def)
  from validateReferences_accepts [OF this, of sample_packages] sample_references
  have "\<forall>pg\<in>set sample_pages. \<exists>n r. replacement_chain (b_ids sample_bundle) pg n r" by blast
  then show ?thesis by (simp add: sample_pages_def)
qed

text \<open>
  C10: once the index could be read, \<open>validateIndex\<close> accepts exactly if handbook positions are
  unique and every collection's index is complete, without repetition and in order. The order
  is by position or record number, which \<open>loadDocumentation\<close> has validated at this point.
\<close>
theorem validateIndex_accepts:
  assumes "indexEntries pkg cwd fs root overview sources = Inr entries"
    and "\<forall>s pg. map_get sources s = Some pg \<longrightarrow> pg \<in> set (overview # rest)"
  shows "validateIndex pkg cwd fs root (overview # rest) sources = Inr () \<longleftrightarrow>
    distinct (map (\<lambda>pg. meta pg ''sidebar_position'')
      (filter (\<lambda>pg. p_collection pg = ''handbook'') (overview # rest))) \<and>
    (\<forall>c\<in>set collections. \<exists>xs. map_get entries (c_name c) = Some xs \<and>
       index_spec (overview # rest) (c_name c) xs)"
  using assms by (rule validateIndex_iff)

theorem validateIndex_accepts_witness:
  "\<exists>xs. index_spec sample_pages ''decisions'' xs"
proof -
  let ?ov = "sample_overview" and ?rest = "[sample_guide, sample_first, sample_second]"
  obtain entries where e: "indexEntries sample_packages ''/'' sample_fs ''/r'' ?ov (b_sources sample_bundle) = Inr entries"
    using sample_index by (auto simp: validateIndex_def sample_pages_def seqE)
  have src: "\<forall>s pg. map_get (b_sources sample_bundle) s = Some pg \<longrightarrow> pg \<in> set (?ov # ?rest)"
    by (auto simp: sample_bundle_def sample_pages_def map_get_def split: if_splits)
  from validateIndex_accepts [OF e src] sample_index
  have "\<forall>c\<in>set collections. \<exists>xs. index_spec sample_pages (c_name c) xs" unfolding sample_pages_def by blast
  then show ?thesis by (simp add: collections_def)
qed

section \<open>Rendering\<close>

text \<open>
  C12: rendering a page of a loaded bundle fails only if no repository address is configured,
  if an image of that page, or a definition an image of the page refers to, points to a
  directory that no page stands for (the error then names the page and the address of that
  image), or if a requirement has a \<open>date\<close> that cannot be converted to a string; links, related
  pages and replacements never fail again.
\<close>
theorem render_errors:
  assumes "visits_preorder pkg" "loadDocumentation pkg cwd fs root = Inr b" "pg \<in> set (b_pages b)"
    and "renderPage pkg cwd fs b context pg = Inl e"
  shows "nonempty (x_repository context) = None \<and> e = NoRepository \<or>
    (\<exists>u. e = ImageDirectory (p_source pg) u \<and> directory_image cwd fs b pg u) \<or>
    p_collection pg = ''requirements'' \<and> to_string (number_format pkg) (meta pg ''date'') = Inl e"
  using renderPage_throws [OF assms(1) loadDocumentation_spec(1) [OF assms(2)] assms(3,4)] .

theorem render_errors_witness:
  "renderPage sample_packages ''/'' sample_fs_dir sample_bundle sample_context sample_guide =
     Inl (ImageDirectory ''docs/handbook/guide.md'' ''../../logo.png'') \<and>
   directory_image ''/'' sample_fs_dir sample_bundle sample_guide ''../../logo.png''"
proof -
  have e: "renderPage sample_packages ''/'' sample_fs_dir sample_bundle sample_context sample_guide =
     Inl (ImageDirectory ''docs/handbook/guide.md'' ''../../logo.png'')" by code_simp
  have "p_collection sample_guide \<noteq> ''requirements''" by code_simp
  with render_errors [OF sample_visits sample_dir_loads sample_guide_page e] e show ?thesis by auto
qed

text \<open>
  C13: a link to a documentation source is published as a link to the published page of that
  source: after a successful run, reading the new address the way \<open>localTarget\<close> reads links
  (query and fragment split off, path decoded and resolved from the page), from the page at
  its published place in \<open>pages/docs\<close>, leads to the target of that source, with the query or
  fragment of the original link, and the rendered text of that source is there. The address
  is not percent-encoded, so this is stated for targets without \<open>%\<close>, \<open>?\<close> and \<open>#\<close>
  (\<open>url_literal\<close>); \<open>hash_link_misses\<close> shows what happens to the others.
\<close>
theorem published_page_link:
  assumes "visits_preorder pkg" "glob_ok pkg" "fs_wf fs" "no_category_dir cwd fs root"
    and "assemble pkg cwd fs root context = (Inr m, fs')"
    and "loadDocumentation pkg cwd fs root = Inr b" "pg \<in> set (b_pages b)"
    and "rewriteLinks pkg cwd fs b pg context = Inr tree"
    and "node_at (p_tree pg) pos = Some n" "md_type n \<in> set link_types"
    and "localTarget cwd fs root pg (md_url n) = Inr (Some t)" "destination b t = Some d"
    and "url_literal (p_target d)"
  shows "d \<in> set (b_pages b) \<and>
    (p_source d = t_source t \<or> t_directory t \<and> p_source d = t_source t @ ''/README.md'') \<and>
    localTarget cwd fs' (outputDirectory root) (pg\<lparr>p_source := p_target pg\<rparr>) (url_at tree pos) =
      Inr (Some \<lparr>t_source = p_target d, t_suffix = t_suffix t, t_directory = False\<rparr>) \<and>
    (\<exists>text. renderPage pkg cwd fs b context d = Inr text \<and>
       fs' (out_segs cwd root @ segments (p_target d)) = Some (FFile text))"
proof -
  note spec = loadDocumentation_spec [OF assms(6)]
  note d = destination_page [OF spec(1) assms(12)]
  obtain rs where rs: "renderAll pkg cwd fs b context = Inr rs"
    "run_ops fs_step fs (outputOps pkg cwd root b rs) = (None, fs')"
    using assms(5,6) by (elim assemble_Inr) simp
  then have ready: "ready pkg cwd fs context b rs" using assms(2-4) spec by (simp add: ready_def)
  obtain s where s: "renderPage pkg cwd fs b context d = Inr s"
    "fs' (out_segs cwd root @ segments (p_target d)) = Some (FFile s)"
    using published_file [OF ready d(1)] rs(2) unfolding spec(2) by blast
  have plain: "plain_path (p_target q)" if "q \<in> set (b_pages b)" for q
    using target_plain(1) [OF assms(2) bundle_page(6) [OF spec(1) that]] .
  have "url_at tree pos = Some (relative cwd (p_target pg) (p_target d) @ t_suffix t)"
    using visitor_url [OF assms(1,8-10)] rewriteURL_page [of cwd fs b pg "md_url n" t d] assms(11,12)
    unfolding spec(2) by auto
  moreover have "localTarget cwd fs' (outputDirectory root) (pg\<lparr>p_source := p_target pg\<rparr>)
      (Some (relative cwd (p_target pg) (p_target d) @ t_suffix t)) =
      Inr (Some \<lparr>t_source = p_target d, t_suffix = t_suffix t, t_directory = False\<rparr>)"
    using localTarget_reads_relative [OF plain plain assms(13), OF assms(7) d(1), of "pg\<lparr>p_source := p_target pg\<rparr>"
        "t_suffix t" fs' cwd "outputDirectory root"] published_suffix [OF assms(11)] s(2)
    by (simp add: output_segs)
  ultimately show ?thesis using d s by simp
qed

theorem published_page_link_witness:
  "localTarget ''/'' sample_published (outputDirectory ''/r'') (sample_guide\<lparr>p_source := ''handbook/guide.md''\<rparr>)
     (url_at sample_tree [1, 0]) =
   Inr (Some \<lparr>t_source = ''decisions/1.md'', t_suffix = ''#why'', t_directory = False\<rparr>)"
proof -
  let ?t = "\<lparr>t_source = ''docs/decisions/1.md'', t_suffix = ''#why'', t_directory = False\<rparr>"
  have "node_at (p_tree sample_guide) [1, 0] = Some (md_link ''link'' ''../decisions/1.md#why'')"
    "md_type (md_link ''link'' ''../decisions/1.md#why'') \<in> set link_types"
    "localTarget ''/'' sample_fs ''/r'' sample_guide (md_url (md_link ''link'' ''../decisions/1.md#why'')) = Inr (Some ?t)"
    "destination sample_bundle ?t = Some sample_first" "url_literal (p_target sample_first)"
    "p_target sample_guide = ''handbook/guide.md''" "p_target sample_first = ''decisions/1.md''"
    by code_simp+
  then show ?thesis
    using published_page_link [OF sample_visits sample_glob_ok sample_wf sample_no_category sample_assembles
        sample_loads sample_guide_page sample_rewrites, of "[1, 0]" "md_link ''link'' ''../decisions/1.md#why''" ?t sample_first]
    by simp
qed

text \<open>
  C14: an image that is no documentation source, and a definition that images refer to, is
  published with an address that leads from the generated file under \<open>pages/docs\<close> to the image:
  after any run, reading the new address the way \<open>localTarget\<close> reads links gives the same file
  of the repository and the same query or fragment as the original address in the source.
  Again the address is not percent-encoded, so this is stated for images whose path has no
  \<open>%\<close>, \<open>?\<close> and \<open>#\<close>; and the image must not lie in the generated directory, which is replaced.
\<close>
theorem published_image_link:
  assumes "visits_preorder pkg" "glob_ok pkg" "fs_wf fs" "loadDocumentation pkg cwd fs root = Inr b"
    and "pg \<in> set (b_pages b)" "rewriteLinks pkg cwd fs b pg context = Inr tree"
    and "node_at (p_tree pg) pos = Some n" "image_address (p_tree pg) n"
    and "localTarget cwd fs root pg (md_url n) = Inr (Some t)" "destination b t = None"
    and "url_literal (t_source t)" "\<not> prefix [''pages'', ''docs''] (segments (t_source t))"
    and "assemble pkg cwd fs root context = (r, fs')"
  shows "\<not> t_directory t \<and>
    localTarget cwd fs' root (pg\<lparr>p_source := ''pages/docs/'' @ p_target pg\<rparr>) (url_at tree pos) = Inr (Some t)"
proof -
  note spec = loadDocumentation_spec [OF assms(4)]
  note origin = bundle_page(6) [OF spec(1) assms(5), unfolded spec(2)]
  let ?q = "resolve_segs cwd [root] @ segments (t_source t)"
  have dir: "fs (resolve_segs cwd [root]) = Some FDir" using root_of_page [OF assms(2,3) origin] .
  have image: "md_type n = ''image'' \<or> md_type n = ''definition'' \<and> md_identifier n \<in> set (imageDefinitions pkg (p_tree pg))"
    using assms(8) by (auto simp: image_address_def imageDefinitions_iff [OF assms(1)])
  then have "md_type n \<in> set link_types" by (auto simp: link_types_def)
  from visitor_url [OF assms(1,6,7) this] obtain u where
    u: "rewriteURL cwd fs b pg context (imageDefinitions pkg (p_tree pg)) (md_type n) (md_identifier n) (md_url n) = Inr u"
    "url_at tree pos = (case u of None \<Rightarrow> md_url n | Some v \<Rightarrow> Some v)" by blast
  have nd: "\<not> t_directory t" and link: "url_at tree pos =
      Some (relative cwd (''pages/docs/'' @ p_target pg) (t_source t) @ t_suffix t)"
    using rewriteURL_image [OF _ assms(10) image u(1)] assms(9) u(2) unfolding spec(2) by auto
  have "\<not> prefix (out_segs cwd root) ?q" using assms(12) by (simp add: out_segs_def)
  then have "fs' ?q = fs ?q"
    using assemble_outside [OF assms(2,13)] target_below(2) [OF assms(9) nd dir] by (fastforce simp: is_file_def)
  with image_reads [OF target_plain(1) [OF assms(2) origin] assms(9) nd dir assms(11)] nd link
  show ?thesis by simp
qed

theorem published_image_link_witness:
  "localTarget ''/'' sample_published ''/r'' (sample_guide\<lparr>p_source := ''pages/docs/handbook/guide.md''\<rparr>)
     (url_at sample_tree [1, 3]) =
   Inr (Some \<lparr>t_source = ''logo.png'', t_suffix = '''', t_directory = False\<rparr>)"
proof -
  let ?t = "\<lparr>t_source = ''logo.png'', t_suffix = '''', t_directory = False\<rparr>"
  have "node_at (p_tree sample_guide) [1, 3] = Some (md_link ''image'' ''../../logo.png'')"
    "localTarget ''/'' sample_fs ''/r'' sample_guide (md_url (md_link ''image'' ''../../logo.png'')) = Inr (Some ?t)"
    "destination sample_bundle ?t = None" "p_target sample_guide = ''handbook/guide.md''"
    "url_literal (t_source ?t)" "\<not> prefix [''pages'', ''docs''] (segments (t_source ?t))"
    by code_simp+
  moreover have "image_address (p_tree sample_guide) (md_link ''image'' ''../../logo.png'')"
    by (simp add: image_address_def md_link_def)
  ultimately show ?thesis
    using published_image_link [OF sample_visits sample_glob_ok sample_wf sample_loads sample_guide_page sample_rewrites
        _ _ _ _ _ _ sample_assembles, of "[1, 3]" "md_link ''image'' ''../../logo.png''" ?t]
    by simp
qed

text \<open>
  C15: rewriting changes nothing but the addresses of local links: the published tree has the
  same nodes with the same texts, and a \<open>url\<close> differs only at a link, image or definition
  whose address resolves to a file of the repository.
\<close>
theorem rewriteLinks_frame:
  assumes "visits_preorder pkg" "rewriteLinks pkg cwd fs b pg context = Inr tree"
  shows "info_at tree pos = info_at (p_tree pg) pos \<and>
    (url_at tree pos = url_at (p_tree pg) pos \<or>
     (\<exists>n t. node_at (p_tree pg) pos = Some n \<and> md_type n \<in> {''link'', ''image'', ''definition''} \<and>
        localTarget cwd fs (b_root b) pg (md_url n) = Inr (Some t)))"
proof -
  let ?f = "visitor cwd fs b pg context (imageDefinitions pkg (p_tree pg))"
  have pass: "foldE (mdtree.visit_one ?f) (p_tree pg) (preorder (p_tree pg)) = Inr tree"
    using assms by (simp add: rewriteLinks_def rewriteNode_visit visits_preorder_def)
  note info = mdtree.pass_info [OF pass, of pos]
  show ?thesis
  proof (cases "node_at (p_tree pg) pos")
    case None
    then have "pos \<notin> set (preorder (p_tree pg))" by (simp add: preorder_iff)
    then show ?thesis using info mdtree.pass_url_other [OF pass] by simp
  next
    case (Some n)
    obtain r where r: "?f (the (info_at (p_tree pg) pos)) (md_url n) = Inr r"
      "url_at tree pos = (case r of None \<Rightarrow> md_url n | Some u \<Rightarrow> Some u)"
      using rewriteLinks_node(2) [OF assms Some] by blast
    have old: "url_at (p_tree pg) pos = md_url n" using Some by (simp add: url_at_def)
    show ?thesis
    proof (cases r)
      case None
      with r(2) old info show ?thesis by simp
    next
      case new: (Some u)
      then have ty: "md_type n \<in> set link_types" and
        ru: "rewriteURL cwd fs b pg context (imageDefinitions pkg (p_tree pg)) (md_type n) (md_identifier n) (md_url n) = Inr (Some u)"
        using r(1) Some by (auto simp: info_at_def visitor_def split: if_splits)
      then obtain t where "localTarget cwd fs (b_root b) pg (md_url n) = Inr (Some t)"
        by (auto simp: rewriteURL_def seqE split: option.splits)
      with Some ty info show ?thesis by (auto simp: link_types_def)
    qed
  qed
qed

theorem rewriteLinks_frame_witness:
  "info_at sample_tree [1, 1] = info_at (p_tree sample_guide) [1, 1] \<and> url_at sample_tree [1, 1] = Some ''https://go.dev''"
proof -
  have "node_at (p_tree sample_guide) [1, 1] = Some (md_link ''link'' ''https://go.dev'')"
    "localTarget ''/'' sample_fs (b_root sample_bundle) sample_guide (md_url (md_link ''link'' ''https://go.dev'')) = Inr None"
    "url_at (p_tree sample_guide) [1, 1] = Some ''https://go.dev''"
    by code_simp+
  with rewriteLinks_frame [OF sample_visits sample_rewrites, of "[1, 1]"] show ?thesis by auto
qed

text \<open>
  C18: a published page reads back: the front matter that \<open>readPage\<close> recognises in the text
  \<open>renderPage\<close> produced is exactly the dumped metadata, and the body starts after an empty
  line, provided the YAML printer ends its text with a newline and writes no fence line.
\<close>
theorem rendered_front_matter:
  assumes "renderPage pkg cwd fs b context pg = Inr text"
    and "yaml_dump pkg dump_options (metadata_entries (p_metadata pg)) = g @ [newline]" "clean_block g"
  shows "\<exists>body. front_matter text = Some (g, newline # body)"
proof -
  obtain body where "text = ''---'' @ [newline] @ g @ [newline] @ ''---'' @ [newline] @ newline # body"
    using assms(1,2) by (auto simp: renderPage_def seqE Let_def)
  then show ?thesis using front_matter_block [OF assms(3)] by blast
qed

theorem rendered_front_matter_witness:
  "\<exists>text body. renderPage sample_packages ''/'' sample_fs sample_bundle sample_context sample_overview = Inr text \<and>
     front_matter text = Some (''id'' @ [newline] @ ''title'' @ [newline] @ ''collection'', newline # body)"
proof -
  let ?g = "''id'' @ [newline] @ ''title'' @ [newline] @ ''collection''"
  have "sample_overview \<in> set (b_pages sample_bundle)" by (simp add: sample_bundle_def sample_pages_def)
  then obtain s where s: "renderPage sample_packages ''/'' sample_fs sample_bundle sample_context sample_overview = Inr s"
    using renderAll_page [OF sample_renders] by blast
  have "yaml_dump sample_packages dump_options (metadata_entries (p_metadata sample_overview)) = ?g @ [newline]"
    by code_simp
  moreover have "clean_block ?g" unfolding clean_block_def by code_simp
  ultimately show ?thesis using rendered_front_matter [OF s] s by blast
qed

section \<open>The command line\<close>

text \<open>
  C24: run as a script, the program ends in one of two ways. It prints one line on the
  standard output, nothing on the standard error, and exits with 0: with \<open>--check\<close> the line is
  the number of sources validated, when the documentation loads, and no file is touched;
  otherwise it is the number of pages assembled, when the context was built and \<open>assemble\<close>
  succeeded; both numbers are one plus the number of Markdown files of the collections. Or it
  prints nothing on the standard output and the message of the error on the standard error
  and exits with 1: the error of loading with \<open>--check\<close>, else that of building the context or
  of \<open>assemble\<close>; the file system is then unchanged, unless writing itself failed.
\<close>
theorem main_outcome:
  assumes "1 < length argv" "argv ! 1 \<noteq> []" "path_resolve cwd [argv ! 1] = script"
  shows "let root = rootDirectory cwd script;
      count = 1 + sum_list (map (\<lambda>c. length (collectionFiles pkg cwd fs root (c_name c))) collections)
    in \<exists>fs'.
    (if ''--check'' \<in> set argv then (\<exists>b. loadDocumentation pkg cwd fs root = Inr b) \<and> fs' = fs
     else \<exists>context. buildContext pf root = Inr context \<and> assemble pkg cwd fs root context = (Inr count, fs')) \<and>
    main pkg pf cwd fs script argv =
      \<lparr>o_stdout = [if ''--check'' \<in> set argv
                   then ''Validated '' @ show_nat count @ '' documentation sources, metadata, index, and local file links.''
                   else ''Assembled '' @ show_nat count @ '' documentation pages.''],
       o_stderr = [], o_exit = 0, o_fs = fs'\<rparr> \<or>
    (\<exists>e. (if ''--check'' \<in> set argv then loadDocumentation pkg cwd fs root = Inl e \<and> fs' = fs
          else buildContext pf root = Inl e \<and> fs' = fs \<or>
            (\<exists>context. buildContext pf root = Inr context \<and> assemble pkg cwd fs root context = (Inl e, fs') \<and>
               (fs' = fs \<or> (\<exists>c d. e = FsError c d)))) \<and>
       main pkg pf cwd fs script argv = \<lparr>o_stdout = [], o_stderr = [error_message e], o_exit = 1, o_fs = fs'\<rparr>)"
proof -
  define root where "root = rootDirectory cwd script"
  define count where "count = 1 + sum_list (map (\<lambda>c. length (collectionFiles pkg cwd fs root (c_name c))) collections)"
  have count: "length (b_pages b) = count" if "loadDocumentation pkg cwd fs root = Inr b" for b
    using loaded_count [OF that] by (simp add: count_def)
  note run = main_def Let_def root_def [symmetric] count_def
  show ?thesis
  proof (cases "''--check'' \<in> set argv")
    case True
    with assms show ?thesis
      by (cases "loadDocumentation pkg cwd fs root") (auto simp: run count)
  next
    case False
    then show ?thesis
    proof (cases "buildContext pf root")
      case (Inl e)
      with False assms show ?thesis by (auto simp: run assembleDefault_def)
    next
      case built: (Inr ctx)
      obtain r fs' where a: "assemble pkg cwd fs root ctx = (r, fs')" by force
      show ?thesis
      proof (cases r)
        case (Inl e)
        with a have "fs' = fs \<or> (\<exists>c d. e = FsError c d)" using assemble_Inl by blast
        with a Inl built False assms show ?thesis by (auto simp: run assembleDefault_def)
      next
        case (Inr n)
        with a have "n = count" by (metis assemble_Inr count)
        with a Inr built False assms show ?thesis by (auto simp: run assembleDefault_def)
      qed
    qed
  qed
qed

theorem main_outcome_witness:
  "main sample_packages sample_platform ''/'' sample_fs ''/r/pages/assemble.mjs''
     [''node'', ''/r/pages/assemble.mjs'', ''--check''] =
   \<lparr>o_stdout = [''Validated 4 documentation sources, metadata, index, and local file links.''],
    o_stderr = [], o_exit = 0, o_fs = sample_fs\<rparr>"
proof -
  have "path_resolve ''/'' [''/r/pages/assemble.mjs''] = ''/r/pages/assemble.mjs''"
    "rootDirectory ''/'' ''/r/pages/assemble.mjs'' = ''/r''"
    "show_nat (1 + sum_list (map (\<lambda>c. length (collectionFiles sample_packages ''/'' sample_fs ''/r'' (c_name c))) collections)) = ''4''"
    by code_simp+
  with main_outcome [of "[''node'', ''/r/pages/assemble.mjs'', ''--check'']" "''/''" "''/r/pages/assemble.mjs''"
      sample_packages sample_fs sample_platform] sample_loads
  show ?thesis by (simp add: Let_def)
qed

end
